theory Spec2Isabelle
  imports Main "HOL-Library.Word" "HOL-Library.Log_Nat"
begin

section \<open>Machine numbers\<close>

text \<open>
  Go's \<open>int32\<close> is a 32-bit word read in two's complement (\<open>sint\<close>); \<open>+\<close> and \<open>-\<close> wrap.
  Channel ids, status codes and the retry counters are Go \<open>int\<close>/\<open>int64\<close> values far
  away from their 64-bit bounds and are modelled as \<open>int\<close>.
\<close>

type_synonym int32 = "32 word"

text \<open>
  A \<open>float64\<close> is a finite value (given by the rational it denotes), an infinity or NaN.
  Signed zeros are not distinguished: no comparison tells them apart and the only divisor
  used below is clamped away from zero.
\<close>

datatype float64 = Fin rat | PosInf | NegInf | NaN

fun f64_lt :: "float64 \<Rightarrow> float64 \<Rightarrow> bool" where
  "f64_lt NaN _ = False"
| "f64_lt _ NaN = False"
| "f64_lt (Fin a) (Fin b) = (a < b)"
| "f64_lt (Fin a) PosInf = True"
| "f64_lt (Fin a) NegInf = False"
| "f64_lt PosInf _ = False"
| "f64_lt NegInf NegInf = False"
| "f64_lt NegInf _ = True"

definition f64_gt :: "float64 \<Rightarrow> float64 \<Rightarrow> bool" where
  "f64_gt x y = f64_lt y x"

definition pow2 :: "int \<Rightarrow> rat" where
  "pow2 s = (if 0 \<le> s then 2 ^ nat s else 1 / 2 ^ nat (- s))"

text \<open>The binary exponent of a positive rational: \<open>2 ^ ilog2 a \<le> a < 2 ^ (ilog2 a + 1)\<close>.\<close>

definition ilog2 :: "rat \<Rightarrow> int" where
  "ilog2 a = (if 1 \<le> a then bitlen \<lfloor>a\<rfloor> - 1 else - bitlen (\<lceil>1 / a\<rceil> - 1))"

definition round_half_even :: "rat \<Rightarrow> int" where
  "round_half_even m =
     (let f = \<lfloor>m\<rfloor>; d = m - of_int f
      in if d < 1 / 2 then f else if 1 / 2 < d then f + 1 else if even f then f else f + 1)"

text \<open>
  IEEE 754 binary64 rounding (to nearest, ties to even) of an exact result to 53
  significant bits. Every quotient formed below is 0 or has a magnitude between 1 and
  \<open>2 ^ 35\<close>, so neither subnormal numbers nor overflow arise.
\<close>

definition round64 :: "rat \<Rightarrow> rat" where
  "round64 q =
     (if q = 0 then 0
      else let s = ilog2 \<bar>q\<bar> - 52
           in sgn q * of_int (round_half_even (\<bar>q\<bar> / pow2 s)) * pow2 s)"

fun f64_div :: "float64 \<Rightarrow> float64 \<Rightarrow> float64" where
  "f64_div NaN _ = NaN"
| "f64_div _ NaN = NaN"
| "f64_div (Fin a) (Fin b) =
     (if b = 0 then (if a = 0 then NaN else if 0 < a then PosInf else NegInf)
      else Fin (round64 (a / b)))"
| "f64_div (Fin a) _ = Fin 0"
| "f64_div PosInf (Fin b) = (if 0 \<le> b then PosInf else NegInf)"
| "f64_div NegInf (Fin b) = (if 0 \<le> b then NegInf else PosInf)"
| "f64_div _ _ = NaN"

text \<open>
  The constant \<open>0.1\<close> as Go stores it in a \<open>float64\<close>: the nearest binary64 value,
  \<open>3602879701896397 / 2 ^ 55\<close>.
\<close>

definition tenth :: rat where
  "tenth = 3602879701896397 / 36028797018963968"

definition f64_tenth :: float64 where
  "f64_tenth = Fin tenth"

definition float64_of_int32 :: "int32 \<Rightarrow> float64" where
  "float64_of_int32 w = Fin (of_int (sint w))"

definition trunc_rat :: "rat \<Rightarrow> int" where
  "trunc_rat q = (if 0 \<le> q then \<lfloor>q\<rfloor> else \<lceil>q\<rceil>)"

text \<open>
  Go's conversion \<open>int32(f)\<close> discards the fraction (truncation towards zero). When the
  value is NaN, infinite or outside the \<open>int32\<close> range the result is implementation-dependent;
  the parameter \<open>oor\<close> stands for whatever the platform yields there.
\<close>

definition int32_of_float64 :: "(float64 \<Rightarrow> int32) \<Rightarrow> float64 \<Rightarrow> int32" where
  "int32_of_float64 oor x =
     (case x of
        Fin q \<Rightarrow>
          (let t = trunc_rat q
           in if - (2 ^ 31) \<le> t \<and> t < 2 ^ 31 then word_of_int t else oor x)
      | _ \<Rightarrow> oor x)"

section \<open>Channels and the channel selector\<close>

text \<open>
  Modelled from the spec: the status enumeration of \<open>model.Channel\<close> is declared outside the
  files at hand; the spec gives \<open>status \<in> {Enabled, Disabled, \<dots>}\<close>.
\<close>

datatype channel_status = ChannelStatusEnabled | ChannelStatusDisabled | ChannelStatusOther

text \<open>
  A channel as the controller reads it: its id, its status and the value that
  \<open>channel.GetPriority()\<close> returns (the method itself is declared elsewhere).
\<close>

record channel =
  ch_id :: int
  ch_status :: channel_status
  ch_priority :: int32

text \<open>
  A Go call either returns a value, returns one of the package's error values, or panics.
\<close>

datatype error = ErrChannelsNotFound | ErrChannelsExhausted | ErrGetRequestBody

datatype panic = PanicInt32N | PanicIntN | PanicNilDeref

datatype 'a ret = Ok 'a | Err error | Panic panic

text \<open>Functions without an error result either return or panic.\<close>

datatype 'a may_panic = Returns 'a | Panics panic

fun filterChannels :: "channel list \<Rightarrow> int list \<Rightarrow> channel list" where
  "filterChannels [] ignoreChannel = []"
| "filterChannels (c # cs) ignoreChannel =
     (if ch_status c \<noteq> ChannelStatusEnabled then filterChannels cs ignoreChannel
      else if ch_id c \<in> set ignoreChannel then filterChannels cs ignoreChannel
      else c # filterChannels cs ignoreChannel)"

definition getPriority :: "(float64 \<Rightarrow> int32) \<Rightarrow> channel \<Rightarrow> float64 \<Rightarrow> int32" where
  "getPriority oor c errorRate =
     (let priority = ch_priority c;
          errorRate' = (if f64_gt errorRate (Fin 1) then Fin 1
                        else if f64_lt errorRate f64_tenth then f64_tenth
                        else errorRate)
      in int32_of_float64 oor (f64_div (float64_of_int32 priority) errorRate'))"

text \<open>Reading a Go map at a missing key yields the zero value.\<close>

definition rate_of :: "(int \<rightharpoonup> float64) \<Rightarrow> int \<Rightarrow> float64" where
  "rate_of errorRates k = (case errorRates k of None \<Rightarrow> Fin 0 | Some e \<Rightarrow> e)"

text \<open>
  \<open>rand.Int32N n\<close> and \<open>rand.IntN n\<close> panic unless \<open>0 < n\<close> and otherwise return a number
  in \<open>[0, n)\<close>. The draw \<open>d\<close> is an arbitrary natural number supplied by the caller of the
  model; reducing it modulo \<open>n\<close> reaches every value the generator may return.
\<close>

definition rand_Int32N :: "nat \<Rightarrow> int32 \<Rightarrow> int32 ret" where
  "rand_Int32N d n =
     (if sint n \<le> 0 then Panic PanicInt32N else Ok (word_of_nat (d mod nat (sint n))))"

definition rand_IntN :: "nat \<Rightarrow> nat \<Rightarrow> nat ret" where
  "rand_IntN d n = (if n = 0 then Panic PanicIntN else Ok (d mod n))"

definition rand_pick :: "nat \<Rightarrow> channel list \<Rightarrow> channel ret" where
  "rand_pick d channels =
     (case rand_IntN d (length channels) of
        Ok k \<Rightarrow> Ok (channels ! k)
      | Err e \<Rightarrow> Err e
      | Panic p \<Rightarrow> Panic p)"

text \<open>The second loop of \<open>getRandomChannel\<close>: subtract the cached weights in order.\<close>

fun walk_weights :: "int32 \<Rightarrow> (channel \<times> int32) list \<Rightarrow> channel option" where
  "walk_weights r [] = None"
| "walk_weights r ((c, w) # rest) =
     (let r' = r - w in if sint r' < 0 then Some c else walk_weights r' rest)"

definition getRandomChannel ::
  "(float64 \<Rightarrow> int32) \<Rightarrow> nat \<Rightarrow> nat \<Rightarrow> channel list \<Rightarrow> (int \<rightharpoonup> float64) \<Rightarrow> int list
     \<Rightarrow> channel ret" where
  "getRandomChannel oor d32 dn channels errorRates ignoreChannel =
     (if length channels = 0 then Err ErrChannelsNotFound
      else let channels' = filterChannels channels ignoreChannel
           in if length channels' = 0 then Err ErrChannelsExhausted
              else if length channels' = 1 then Ok (channels' ! 0)
              else let cachedPrioritys =
                         map (\<lambda>c. getPriority oor c (rate_of errorRates (ch_id c))) channels';
                       totalWeight = sum_list cachedPrioritys
                   in if totalWeight = 0 then rand_pick dn channels'
                      else (case rand_Int32N d32 totalWeight of
                              Panic p \<Rightarrow> Panic p
                            | Err e \<Rightarrow> Err e
                            | Ok r \<Rightarrow>
                                (case walk_weights r (zip channels' cachedPrioritys) of
                                   Some c \<Rightarrow> Ok c
                                 | None \<Rightarrow> rand_pick dn channels')))"


text \<open>
  \<open>GetRandomChannel\<close> collects the channels of the caller's availability sets into a map
  keyed by channel id and flattens it again; \<open>migratedChannels\<close> stands for that flattened
  list (duplicate-free by id, in the order Go's map iteration produced).
\<close>

definition GetRandomChannel ::
  "(float64 \<Rightarrow> int32) \<Rightarrow> nat \<times> nat \<Rightarrow> channel list \<Rightarrow> (int \<rightharpoonup> float64) \<Rightarrow> int list
     \<Rightarrow> channel ret \<times> channel list" where
  "GetRandomChannel oor draws migrated rates ignoreChannel =
     (getRandomChannel oor (fst draws) (snd draws) migrated rates ignoreChannel, migrated)"

definition getChannelWithFallback ::
  "(float64 \<Rightarrow> int32) \<Rightarrow> nat \<times> nat \<Rightarrow> nat \<times> nat \<Rightarrow> channel list \<Rightarrow> (int \<rightharpoonup> float64)
     \<Rightarrow> int list \<Rightarrow> channel ret \<times> channel list" where
  "getChannelWithFallback oor draws draws' migrated rates ignoreChannelIDs =
     (case GetRandomChannel oor draws migrated rates ignoreChannelIDs of
        (Ok c, mig) \<Rightarrow> (Ok c, mig)
      | (Err e, mig) \<Rightarrow>
          (if e \<noteq> ErrChannelsExhausted then (Err e, mig)
           else GetRandomChannel oor draws' migrated rates [])
      | (Panic p, mig) \<Rightarrow> (Panic p, mig))"

section \<open>Status classification\<close>

definition StatusBadRequest :: int where "StatusBadRequest = 400"
definition StatusUnauthorized :: int where "StatusUnauthorized = 401"
definition StatusPaymentRequired :: int where "StatusPaymentRequired = 402"
definition StatusForbidden :: int where "StatusForbidden = 403"
definition StatusNotFound :: int where "StatusNotFound = 404"
definition StatusRequestEntityTooLarge :: int where "StatusRequestEntityTooLarge = 413"
definition StatusTooManyRequests :: int where "StatusTooManyRequests = 429"
definition StatusOK :: int where "StatusOK = 200"
definition StatusServiceUnavailable :: int where "StatusServiceUnavailable = 503"

definition shouldRetry :: "int \<Rightarrow> bool" where
  "shouldRetry statusCode =
     (statusCode \<noteq> StatusBadRequest \<and> statusCode \<noteq> StatusRequestEntityTooLarge)"

definition channelNoPermissionStatusCodesMap :: "int list" where
  "channelNoPermissionStatusCodesMap =
     [StatusUnauthorized, StatusPaymentRequired, StatusForbidden, StatusNotFound]"

definition channelHasPermission :: "int \<Rightarrow> bool" where
  "channelHasPermission statusCode = (statusCode \<notin> set channelNoPermissionStatusCodesMap)"

definition shouldDelay :: "int \<Rightarrow> bool" where
  "shouldDelay statusCode = (statusCode = StatusTooManyRequests)"

section \<open>One attempt\<close>

text \<open>
  Of a \<open>HandleResult\<close> the controller inspects the \<open>Error\<close> pointer and its status code;
  \<open>hr_error = None\<close> is the nil \<open>Error\<close>. Of the request meta it inspects the bound channel.
\<close>

record HandleResult =
  hr_error :: "int option"

record Meta =
  meta_channel :: channel

text \<open>
  What the controller does to the outside world, in program order: calls of the mode handler
  (the id of the channel bound in the meta, and the error status the handler returned, if
  any), of the health monitor (channel id, \<open>isError\<close>, \<open>noPermission\<close>), of the throttled
  notifier, of the consumption recorder (status code, channel id, attempt index,
  \<open>downstreamResult\<close>), HTTP responses written to the client, and the delay before re-using
  a rate-limited channel.
\<close>

datatype event =
    HandlerCall int "int option"
  | MonitorAddRequest int bool bool
  | NotifyAutoBanned int
  | NotifyBeyondThreshold int
  | NotifyNoPermission int
  | AsyncConsume int int nat bool
  | JSONResponse int
  | Sleep

text \<open>
  What the outside world answers during one attempt: the error status the handler returns
  (if any) and the two flags \<open>monitor.AddRequest\<close> returns for a reported failure.
\<close>

record attempt_env =
  handler_error :: "int option"
  beyondThreshold :: bool
  banExecution :: bool

definition RelayHelper :: "Meta \<Rightarrow> attempt_env \<Rightarrow> HandleResult \<times> bool \<times> event list" where
  "RelayHelper m env =
     (let res = \<lparr>hr_error = handler_error env\<rparr>;
          cid = ch_id (meta_channel m)
      in case hr_error res of
           None \<Rightarrow> (res, False, [HandlerCall cid None, MonitorAddRequest cid False False])
         | Some statusCode \<Rightarrow>
             (let retry = shouldRetry statusCode
              in if retry
                 then (let hasPermission = channelHasPermission statusCode
                       in (res, retry,
                           [HandlerCall cid (Some statusCode),
                            MonitorAddRequest cid True (\<not> hasPermission)] @
                           (if banExecution env then [NotifyAutoBanned cid]
                            else if beyondThreshold env then [NotifyBeyondThreshold cid]
                            else if \<not> hasPermission then [NotifyNoPermission cid]
                            else [])))
                 else (res, retry, [HandlerCall cid (Some statusCode)])))"

definition recordResult :: "Meta \<Rightarrow> HandleResult \<Rightarrow> nat \<Rightarrow> bool \<Rightarrow> event list" where
  "recordResult m res attemptIndex downstreamResult =
     (let code = (case hr_error res of None \<Rightarrow> StatusOK | Some statusCode \<Rightarrow> statusCode)
      in [AsyncConsume code (ch_id (meta_channel m)) attemptIndex downstreamResult])"

section \<open>The retry coordinator\<close>

text \<open>
  The request-scoped retry state. \<open>meta\<close> and \<open>result\<close> are pointers that the loop clears;
  \<open>None\<close> is nil. The price and the input-token count are carried along unchanged by the
  source and play no part in control flow, so they are left out.
\<close>

record retryState =
  retryTimes :: int
  lastHasPermissionChannel :: "channel option"
  ignoreChannelIDs :: "int list"
  errorRates :: "int \<rightharpoonup> float64"
  exhausted :: bool
  meta :: "Meta option"
  result :: "HandleResult option"
  migratedChannels :: "channel list"

record initialChannel =
  ic_channel :: channel
  ic_designatedChannel :: bool
  ic_ignoreChannelIDs :: "int list"
  ic_errorRates :: "int \<rightharpoonup> float64"
  ic_migratedChannels :: "channel list"

text \<open>
  \<open>getInitialChannel\<close>: \<open>designated\<close> is what \<open>middleware.GetChannel\<close> returns, \<open>ids\<close> the
  banned channels and \<open>rates\<close> the error rates the monitor reports for the model.
\<close>

definition getInitialChannel ::
  "(float64 \<Rightarrow> int32) \<Rightarrow> channel option \<Rightarrow> int list \<Rightarrow> (int \<rightharpoonup> float64) \<Rightarrow> channel list
     \<Rightarrow> nat \<times> nat \<Rightarrow> nat \<times> nat \<Rightarrow> initialChannel ret" where
  "getInitialChannel oor designated ids rates migrated draws draws' =
     (case designated of
        Some c \<Rightarrow>
          Ok \<lparr>ic_channel = c, ic_designatedChannel = True, ic_ignoreChannelIDs = [],
              ic_errorRates = Map.empty, ic_migratedChannels = []\<rparr>
      | None \<Rightarrow>
          (case getChannelWithFallback oor draws draws' migrated rates ids of
             (Ok c, mig) \<Rightarrow>
               Ok \<lparr>ic_channel = c, ic_designatedChannel = False, ic_ignoreChannelIDs = ids,
                   ic_errorRates = rates, ic_migratedChannels = mig\<rparr>
           | (Err e, mig) \<Rightarrow> Err e
           | (Panic p, mig) \<Rightarrow> Panic p))"

text \<open>\<open>ctxErr\<close> tells whether \<open>c.Request.Context().Err()\<close> is non-nil when it is read.\<close>

definition handleRelayResult :: "bool \<Rightarrow> int option \<Rightarrow> bool \<Rightarrow> int \<Rightarrow> bool \<times> event list" where
  "handleRelayResult ctxErr bizErr retry n =
     (case bizErr of
        None \<Rightarrow> (True, [])
      | Some statusCode \<Rightarrow>
          (if \<not> retry \<or> n = 0 \<or> ctxErr then (True, [JSONResponse statusCode])
           else (False, [])))"

text \<open>
  Reading \<open>x.Error.StatusCode\<close> panics when \<open>x\<close> or \<open>x.Error\<close> is nil; \<open>None\<close> is that
  nil dereference.
\<close>

definition error_status :: "HandleResult option \<Rightarrow> int option" where
  "error_status r = (case r of None \<Rightarrow> None | Some res \<Rightarrow> hr_error res)"

definition initRetryState ::
  "int \<Rightarrow> initialChannel \<Rightarrow> Meta \<Rightarrow> HandleResult \<Rightarrow> retryState may_panic" where
  "initRetryState n ic m res =
     (let state = \<lparr>retryTimes = n, lastHasPermissionChannel = None,
                    ignoreChannelIDs = ic_ignoreChannelIDs ic, errorRates = ic_errorRates ic,
                    exhausted = False, meta = Some m, result = Some res,
                    migratedChannels = ic_migratedChannels ic\<rparr>;
          state = (if ic_designatedChannel ic then state\<lparr>exhausted := True\<rparr> else state)
      in case error_status (Some res) of
           None \<Rightarrow> Panics PanicNilDeref
         | Some statusCode \<Rightarrow>
             (if \<not> channelHasPermission statusCode
              then Returns (state\<lparr>ignoreChannelIDs :=
                                     ignoreChannelIDs state @ [ch_id (ic_channel ic)]\<rparr>)
              else Returns (state\<lparr>lastHasPermissionChannel := Some (ic_channel ic)\<rparr>)))"

definition delay :: "int \<Rightarrow> event list" where
  "delay statusCode = (if shouldDelay statusCode then [Sleep] else [])"

definition reuse_last ::
  "channel \<Rightarrow> retryState \<Rightarrow> (channel \<times> retryState \<times> event list) ret" where
  "reuse_last c state =
     (case error_status (result state) of
        None \<Rightarrow> Panic PanicNilDeref
      | Some statusCode \<Rightarrow> Ok (c, state, delay statusCode))"

definition getRetryChannel ::
  "(float64 \<Rightarrow> int32) \<Rightarrow> nat \<Rightarrow> nat \<Rightarrow> retryState
     \<Rightarrow> (channel \<times> retryState \<times> event list) ret" where
  "getRetryChannel oor d32 dn state =
     (if exhausted state
      then (case lastHasPermissionChannel state of
              None \<Rightarrow> Err ErrChannelsExhausted
            | Some c \<Rightarrow> reuse_last c state)
      else (case getRandomChannel oor d32 dn (migratedChannels state) (errorRates state)
                   (ignoreChannelIDs state) of
              Ok newChannel \<Rightarrow> Ok (newChannel, state, [])
            | Panic p \<Rightarrow> Panic p
            | Err e \<Rightarrow>
                (case lastHasPermissionChannel state of
                   None \<Rightarrow> Err e
                 | Some c \<Rightarrow>
                     (if e \<noteq> ErrChannelsExhausted then Err e
                      else reuse_last c (state\<lparr>exhausted := True\<rparr>)))))"

text \<open>\<open>prepareRetry\<close> returns an error exactly when re-reading the request body fails.\<close>

definition prepareRetry :: "bool \<Rightarrow> error option" where
  "prepareRetry bodyError = (if bodyError then Some ErrGetRequestBody else None)"

definition handleRetryResult ::
  "bool \<Rightarrow> bool \<Rightarrow> channel \<Rightarrow> retryState \<Rightarrow> (bool \<times> retryState) may_panic" where
  "handleRetryResult ctxErr retry newChannel state =
     (if ctxErr then Returns (True, state)
      else if \<not> retry then Returns (True, state)
      else (case result state of
              None \<Rightarrow> Panics PanicNilDeref
            | Some res \<Rightarrow>
                (case hr_error res of
                   None \<Rightarrow> Returns (True, state)
                 | Some statusCode \<Rightarrow>
                     (if exhausted state
                      then (if \<not> channelHasPermission statusCode then Returns (True, state)
                            else Returns (False, state))
                      else (if \<not> channelHasPermission statusCode
                            then Returns (False,
                                     state\<lparr>ignoreChannelIDs :=
                                              ignoreChannelIDs state @ [ch_id newChannel],
                                            retryTimes := retryTimes state + 1\<rparr>)
                            else Returns (False,
                                     state\<lparr>lastHasPermissionChannel := Some newChannel\<rparr>))))))"

text \<open>
  A run of the controller ends normally with the events it produced, or panics after some
  events. \<open>ScriptEnded\<close> is not a behaviour of the program: it marks that the list of
  scripted answers of the outside world was used up before the loop ended.
\<close>

datatype run = Finished "event list" | Crashed panic "event list" | ScriptEnded

fun prepend :: "event list \<Rightarrow> run \<Rightarrow> run" where
  "prepend evs (Finished evs') = Finished (evs @ evs')"
| "prepend evs (Crashed p evs') = Crashed p (evs @ evs')"
| "prepend evs ScriptEnded = ScriptEnded"

text \<open>The statements of \<open>retryLoop\<close> after its \<open>for\<close> loop.\<close>

definition after_loop :: "retryState \<Rightarrow> run" where
  "after_loop state =
     (case result state of
        None \<Rightarrow> Crashed PanicNilDeref []
      | Some res \<Rightarrow>
          (case hr_error res of
             None \<Rightarrow> Finished []
           | Some statusCode \<Rightarrow> Finished [JSONResponse statusCode]))"

text \<open>\<open>when the last request has not recorded the result, record the result\<close>\<close>

definition record_pending :: "retryState \<Rightarrow> nat \<Rightarrow> bool \<Rightarrow> event list" where
  "record_pending state i downstreamResult =
     (case meta state of
        None \<Rightarrow> []
      | Some m \<Rightarrow>
          (case result state of
             None \<Rightarrow> []
           | Some res \<Rightarrow> recordResult m res i downstreamResult))"

definition clear_pending :: "retryState \<Rightarrow> retryState" where
  "clear_pending state =
     (if meta state \<noteq> None \<and> result state \<noteq> None
      then state\<lparr>meta := None, result := None\<rparr> else state)"

text \<open>
  What the outside world answers during one iteration of the retry loop: the two random
  draws, whether re-reading the request body fails, the answers during the attempt, and
  whether the request context is cancelled when \<open>handleRetryResult\<close> looks at it.
\<close>

record iter_env =
  it_d32 :: nat
  it_dn :: nat
  it_bodyError :: bool
  it_attempt :: attempt_env
  it_ctxErr :: bool

datatype step = Continue retryState "event list" | Stop run

text \<open>One iteration of the \<open>for\<close> loop of \<open>retryLoop\<close>, with loop counter \<open>i\<close>.\<close>

definition retry_iter :: "(float64 \<Rightarrow> int32) \<Rightarrow> nat \<Rightarrow> retryState \<Rightarrow> iter_env \<Rightarrow> step" where
  "retry_iter oor i state env =
     (case getRetryChannel oor (it_d32 env) (it_dn env) state of
        Panic p \<Rightarrow> Stop (Crashed p [])
      | Err e \<Rightarrow> Stop (prepend (record_pending state i True) (after_loop state))
      | Ok (newChannel, state1, evs) \<Rightarrow>
          (case prepareRetry (it_bodyError env) of
             Some e \<Rightarrow> Stop (prepend (evs @ record_pending state1 i True) (after_loop state1))
           | None \<Rightarrow>
               (let evs1 = evs @ record_pending state1 i False;
                    state2 = clear_pending state1;
                    m = \<lparr>meta_channel = newChannel\<rparr>;
                    (res, retry, evs2) = RelayHelper m (it_attempt env);
                    state3 = state2\<lparr>meta := Some m, result := Some res\<rparr>
                in case handleRetryResult (it_ctxErr env) retry newChannel state3 of
                     Panics p \<Rightarrow> Stop (Crashed p (evs1 @ evs2))
                   | Returns (done, state4) \<Rightarrow>
                       (if done \<or> int i = retryTimes state4 - 1
                        then Stop (prepend (evs1 @ evs2 @ recordResult m res (i + 1) True)
                                     (after_loop state4))
                        else Continue state4 (evs1 @ evs2)))))"

fun retryLoop_from :: "(float64 \<Rightarrow> int32) \<Rightarrow> nat \<Rightarrow> retryState \<Rightarrow> iter_env list \<Rightarrow> run" where
  "retryLoop_from oor i state [] = ScriptEnded"
| "retryLoop_from oor i state (env # envs) =
     (case retry_iter oor i state env of
        Stop r \<Rightarrow> r
      | Continue state' evs \<Rightarrow> prepend evs (retryLoop_from oor (Suc i) state' envs))"

definition retryLoop :: "(float64 \<Rightarrow> int32) \<Rightarrow> retryState \<Rightarrow> iter_env list \<Rightarrow> run" where
  "retryLoop oor state envs = retryLoop_from oor 0 state envs"

section \<open>Admission\<close>






text \<open>
  The nearest binary64 value of a rational (ties to even), with subnormal numbers and
  overflow to infinity.
\<close>

definition float64_nearest :: "rat \<Rightarrow> float64" where
  "float64_nearest q =
     (if q = 0 then Fin 0
      else let s = max (ilog2 \<bar>q\<bar> - 52) (- 1074);
               v = of_int (round_half_even (\<bar>q\<bar> / pow2 s)) * pow2 s
           in if 2 ^ 1024 \<le> v then (if 0 < q then PosInf else NegInf)
              else Fin (sgn q * v))"






section \<open>The request\<close>

text \<open>
  What the outside world answers up to and including the first attempt: the designated
  channel (if the caller pinned one), the monitor's banned ids and error rates, the
  candidate list, the random draws of the initial selection and of its fallback, the
  outcome of admission (price, usage and balance check between channel selection and the
  first attempt: \<open>None\<close> when the request is admitted, otherwise the status \<open>relay\<close> aborts
  with), the configured retry count, the answers during the first attempt, and whether the
  request context is cancelled when \<open>handleRelayResult\<close> looks at it.
\<close>

record request_env =
  rq_designated :: "channel option"
  rq_banned :: "int list"
  rq_rates :: "int \<rightharpoonup> float64"
  rq_migrated :: "channel list"
  rq_draws :: "nat \<times> nat"
  rq_draws' :: "nat \<times> nat"
  rq_admission :: "int option"
  rq_retryTimes :: int
  rq_attempt :: attempt_env
  rq_ctxErr :: bool

text \<open>\<open>relay\<close> up to the call of \<open>retryLoop\<close>.\<close>

definition relay_start :: "(float64 \<Rightarrow> int32) \<Rightarrow> request_env \<Rightarrow> step" where
  "relay_start oor rq =
     (case getInitialChannel oor (rq_designated rq) (rq_banned rq) (rq_rates rq)
             (rq_migrated rq) (rq_draws rq) (rq_draws' rq) of
        Panic p \<Rightarrow> Stop (Crashed p [])
      | Err e \<Rightarrow> Stop (Finished [JSONResponse StatusServiceUnavailable])
      | Ok ic \<Rightarrow>
          (case rq_admission rq of
             Some status \<Rightarrow> Stop (Finished [JSONResponse status])
           | None \<Rightarrow>
               (let m = \<lparr>meta_channel = ic_channel ic\<rparr>;
                    (res, retry, evs) = RelayHelper m (rq_attempt rq);
                    n = rq_retryTimes rq;
                    (done, evs') = handleRelayResult (rq_ctxErr rq) (hr_error res) retry n
                in if done then Stop (Finished (evs @ evs' @ recordResult m res 0 True))
                   else (case initRetryState n ic m res of
                           Panics p \<Rightarrow> Stop (Crashed p (evs @ evs'))
                         | Returns state \<Rightarrow> Continue state (evs @ evs')))))"

definition relay :: "(float64 \<Rightarrow> int32) \<Rightarrow> request_env \<Rightarrow> iter_env list \<Rightarrow> run" where
  "relay oor rq envs =
     (case relay_start oor rq of
        Stop r \<Rightarrow> r
      | Continue state evs \<Rightarrow> prepend evs (retryLoop oor state envs))"

text \<open>
  The configurations at the head of the retry loop that a request can reach: the loop
  counter, the retry state and the events produced so far.
\<close>

inductive reach :: "(float64 \<Rightarrow> int32) \<Rightarrow> request_env \<Rightarrow> nat \<Rightarrow> retryState \<Rightarrow> event list \<Rightarrow> bool"
  for oor :: "float64 \<Rightarrow> int32" and rq :: request_env where
  reach_start: "relay_start oor rq = Continue state evs \<Longrightarrow> reach oor rq 0 state evs"
| reach_iter: "reach oor rq i state evs \<Longrightarrow> retry_iter oor i state env = Continue state' evs'
     \<Longrightarrow> reach oor rq (Suc i) state' (evs @ evs')"

text \<open>The value x86 conversions yield for an unrepresentable operand.\<close>

definition oor_indefinite :: "float64 \<Rightarrow> int32" where
  "oor_indefinite x = word_of_int (- (2 ^ 31))"

section \<open>Observations on runs\<close>

definition helper_retry :: "HandleResult \<times> bool \<times> event list \<Rightarrow> bool" where
  "helper_retry x = fst (snd x)"

definition helper_events :: "HandleResult \<times> bool \<times> event list \<Rightarrow> event list" where
  "helper_events x = snd (snd x)"

fun is_monitor_call :: "event \<Rightarrow> bool" where
  "is_monitor_call (MonitorAddRequest cid isError noPermission) = True"
| "is_monitor_call _ = False"

fun is_notification :: "event \<Rightarrow> bool" where
  "is_notification (NotifyAutoBanned cid) = True"
| "is_notification (NotifyBeyondThreshold cid) = True"
| "is_notification (NotifyNoPermission cid) = True"
| "is_notification _ = False"

text \<open>
  A retry state holds an attempt that is not recorded yet, and that attempt failed: the
  meta and the result are set and the result carries an error.
\<close>

definition pending :: "retryState \<Rightarrow> bool" where
  "pending state \<longleftrightarrow>
     (\<exists>m res sc. meta state = Some m \<and> result state = Some res \<and> hr_error res = Some sc)"

text \<open>The number of attempts of a run: the calls of the mode handler.\<close>

fun attempts :: "event list \<Rightarrow> nat" where
  "attempts [] = 0"
| "attempts (HandlerCall cid st # evs) = Suc (attempts evs)"
| "attempts (_ # evs) = attempts evs"

text \<open>The consumption records of a run: attempt index and \<open>downstreamResult\<close>, in order.\<close>

fun consumes :: "event list \<Rightarrow> (nat \<times> bool) list" where
  "consumes [] = []"
| "consumes (AsyncConsume code cid idx downstream # evs) = (idx, downstream) # consumes evs"
| "consumes (_ # evs) = consumes evs"

text \<open>The ids of the channels that answered with a no-permission status during a run.\<close>

fun noperm_ids :: "event list \<Rightarrow> int list" where
  "noperm_ids [] = []"
| "noperm_ids (HandlerCall cid (Some sc) # evs) =
     (if channelHasPermission sc then noperm_ids evs else cid # noperm_ids evs)"
| "noperm_ids (_ # evs) = noperm_ids evs"

text \<open>The ids with which the ignore list of a request starts.\<close>

definition seed_ids :: "request_env \<Rightarrow> int list" where
  "seed_ids rq = (case rq_designated rq of Some c \<Rightarrow> [] | None \<Rightarrow> rq_banned rq)"

text \<open>The spec's \<open>clamp(e, 0.1, 1.0)\<close>, with \<open>0.1\<close> the \<open>float64\<close> constant.\<close>

definition clamp_rate :: "rat \<Rightarrow> rat" where
  "clamp_rate r = (if 1 < r then 1 else if r < tenth then tenth else r)"

definition selectable :: "int list \<Rightarrow> channel \<Rightarrow> bool" where
  "selectable ignoreChannel c \<longleftrightarrow>
     ch_status c = ChannelStatusEnabled \<and> ch_id c \<notin> set ignoreChannel"

definition weights ::
  "(float64 \<Rightarrow> int32) \<Rightarrow> (int \<rightharpoonup> float64) \<Rightarrow> channel list \<Rightarrow> int32 list" where
  "weights oor rates cs = map (\<lambda>c. getPriority oor c (rate_of rates (ch_id c))) cs"

section \<open>Concrete inputs\<close>

definition ch1 :: channel where
  "ch1 = \<lparr>ch_id = 1, ch_status = ChannelStatusEnabled, ch_priority = 10\<rparr>"

definition ch2 :: channel where
  "ch2 = \<lparr>ch_id = 2, ch_status = ChannelStatusEnabled, ch_priority = 10\<rparr>"

definition hot1 :: channel where
  "hot1 = \<lparr>ch_id = 1, ch_status = ChannelStatusEnabled, ch_priority = 1073741824\<rparr>"

definition hot2 :: channel where
  "hot2 = \<lparr>ch_id = 2, ch_status = ChannelStatusEnabled, ch_priority = 1073741824\<rparr>"

definition hot3 :: channel where
  "hot3 = \<lparr>ch_id = 3, ch_status = ChannelStatusEnabled, ch_priority = 1073741824\<rparr>"

definition hot4 :: channel where
  "hot4 = \<lparr>ch_id = 4, ch_status = ChannelStatusEnabled, ch_priority = 1073741824\<rparr>"

definition heavy :: channel where
  "heavy = \<lparr>ch_id = 3, ch_status = ChannelStatusEnabled, ch_priority = 300000000\<rparr>"

definition answer :: "int option \<Rightarrow> bool \<Rightarrow> bool \<Rightarrow> attempt_env" where
  "answer st beyond ban = \<lparr>handler_error = st, beyondThreshold = beyond, banExecution = ban\<rparr>"

definition request :: "int list \<Rightarrow> int \<Rightarrow> int option \<Rightarrow> request_env" where
  "request ids n st =
     \<lparr>rq_designated = None, rq_banned = ids, rq_rates = Map.empty, rq_migrated = [ch1, ch2],
      rq_draws = (0, 0), rq_draws' = (0, 0), rq_admission = None, rq_retryTimes = n,
      rq_attempt = answer st False False, rq_ctxErr = False\<rparr>"

text \<open>
  A request over four channels of priority \<open>2 ^ 30\<close> and error rate 1, with three configured
  retries, whose first attempt fails with 403.
\<close>

definition hot_request :: request_env where
  "hot_request =
     \<lparr>rq_designated = None, rq_banned = [],
      rq_rates = [1 \<mapsto> Fin 1, 2 \<mapsto> Fin 1, 3 \<mapsto> Fin 1, 4 \<mapsto> Fin 1],
      rq_migrated = [hot1, hot2, hot3, hot4],
      rq_draws = (0, 0), rq_draws' = (0, 0), rq_admission = None, rq_retryTimes = 3,
      rq_attempt = answer (Some 403) False False, rq_ctxErr = False\<rparr>"

definition iteration :: "nat \<Rightarrow> int option \<Rightarrow> bool \<Rightarrow> iter_env" where
  "iteration d st cancelled =
     \<lparr>it_d32 = d, it_dn = 0, it_bodyError = False, it_attempt = answer st False False,
      it_ctxErr = cancelled\<rparr>"

text \<open>
  Retry states of two requests over the candidates \<open>ch1\<close> and \<open>ch2\<close> with channel 7 banned
  and one configured retry: after a first attempt on \<open>ch1\<close> that failed with 500
  (\<open>state_A\<close>); after a first attempt on \<open>ch1\<close> that failed with 403 (\<open>state_B0\<close>), and after the
  retry on \<open>ch2\<close> failed with 403 as well (\<open>state_B1\<close>).
\<close>

definition state_A :: retryState where
  "state_A =
     \<lparr>retryTimes = 1, lastHasPermissionChannel = Some ch1, ignoreChannelIDs = [7],
      errorRates = Map.empty, exhausted = False, meta = Some \<lparr>meta_channel = ch1\<rparr>,
      result = Some \<lparr>hr_error = Some 500\<rparr>, migratedChannels = [ch1, ch2]\<rparr>"

definition state_B0 :: retryState where
  "state_B0 =
     \<lparr>retryTimes = 1, lastHasPermissionChannel = None, ignoreChannelIDs = [7, 1],
      errorRates = Map.empty, exhausted = False, meta = Some \<lparr>meta_channel = ch1\<rparr>,
      result = Some \<lparr>hr_error = Some 403\<rparr>, migratedChannels = [ch1, ch2]\<rparr>"

definition state_B1 :: retryState where
  "state_B1 =
     \<lparr>retryTimes = 2, lastHasPermissionChannel = None, ignoreChannelIDs = [7, 1, 2],
      errorRates = Map.empty, exhausted = False, meta = Some \<lparr>meta_channel = ch2\<rparr>,
      result = Some \<lparr>hr_error = Some 403\<rparr>, migratedChannels = [ch1, ch2]\<rparr>"

section \<open>Properties\<close>

subsection \<open>Rounding and conversion\<close>

text \<open>The exponent chosen by \<open>ilog2\<close> is the binary exponent.\<close>

lemma ilog2_bounds:
  assumes "0 < a"
  shows "pow2 (ilog2 a) \<le> a \<and> a < pow2 (ilog2 a + 1)"
proof (cases "1 \<le> a")
  case True
  define n where "n = \<lfloor>a\<rfloor>"
  have n1: "0 < n" using True by (simp add: n_def)
  have b: "2 ^ nat (bitlen n - 1) \<le> n" "n < 2 ^ nat (bitlen n)"
    using bitlen_bounds[OF n1] by auto
  have k: "1 \<le> bitlen n" using n1 bitlen_eq_zero_iff[of n] bitlen_nonneg[of n] by linarith
  have "(of_int (2 ^ nat (bitlen n - 1)) :: rat) \<le> of_int n" using b(1) by (simp only: of_int_le_iff)
  also have "\<dots> \<le> a" unfolding n_def by linarith
  finally have lo: "2 ^ nat (bitlen n - 1) \<le> a" by simp
  have "n + 1 \<le> 2 ^ nat (bitlen n)" using b(2) by simp
  then have "(of_int (n + 1) :: rat) \<le> of_int (2 ^ nat (bitlen n))" by (simp only: of_int_le_iff)
  moreover have "a < of_int (n + 1)" unfolding n_def by linarith
  ultimately have hi: "a < 2 ^ nat (bitlen n)" by simp
  show ?thesis using True lo hi k by (simp add: ilog2_def pow2_def n_def[symmetric])
next
  case False
  define t where "t = 1 / a"
  define n where "n = \<lceil>t\<rceil> - 1"
  have t1: "1 < t" using False assms by (simp add: t_def)
  have n1: "0 < n" using t1 by (simp add: n_def less_ceiling_iff)
  have b: "2 ^ nat (bitlen n - 1) \<le> n" "n < 2 ^ nat (bitlen n)"
    using bitlen_bounds[OF n1] by auto
  have k: "1 \<le> bitlen n" using n1 bitlen_eq_zero_iff[of n] bitlen_nonneg[of n] by linarith
  have "n + 1 \<le> 2 ^ nat (bitlen n)" using b(2) by simp
  then have "(of_int (n + 1) :: rat) \<le> of_int (2 ^ nat (bitlen n))" by (simp only: of_int_le_iff)
  moreover have "t \<le> of_int (n + 1)" unfolding n_def by linarith
  ultimately have t_hi: "t \<le> 2 ^ nat (bitlen n)" by simp
  have "(2 ^ nat (bitlen n - 1) :: rat) \<le> of_int n"
    using b(1) by (metis of_int_le_iff of_int_numeral of_int_power)
  moreover have "of_int n < t" unfolding n_def by linarith
  ultimately have t_lo: "2 ^ nat (bitlen n - 1) < t" by linarith
  have lo: "1 / 2 ^ nat (bitlen n) \<le> a"
    using t_hi assms by (simp add: t_def field_simps)
  have hi: "a < 1 / 2 ^ nat (bitlen n - 1)"
    using t_lo assms by (simp add: t_def field_simps)
  have e: "ilog2 a = - bitlen n" using False by (simp add: ilog2_def n_def t_def)
  have p1: "pow2 (- bitlen n) = 1 / 2 ^ nat (bitlen n)" using k by (simp add: pow2_def)
  have p2: "pow2 (- bitlen n + 1) = 1 / 2 ^ nat (bitlen n - 1)"
    using k by (cases "bitlen n = 1") (auto simp: pow2_def)
  show ?thesis unfolding e p1 p2 using lo hi by simp
qed

lemma round_half_even_nearest: "\<bar>of_int (round_half_even m) - m\<bar> \<le> 1 / 2"
proof -
  have "of_int \<lfloor>m\<rfloor> \<le> m" "m < of_int \<lfloor>m\<rfloor> + 1" by linarith+
  then show ?thesis
    unfolding round_half_even_def Let_def by (auto simp: abs_le_iff)
qed

lemma pow2_pos: "0 < pow2 s"
  by (simp add: pow2_def)

text \<open>The rounded value is a multiple of the unit in the last place, at most half a unit away.\<close>

lemma round64_nearest:
  assumes "q \<noteq> 0"
  shows "\<bar>round64 q - q\<bar> \<le> pow2 (ilog2 \<bar>q\<bar> - 52) / 2"
proof -
  define u where "u = pow2 (ilog2 \<bar>q\<bar> - 52)"
  define m where "m = \<bar>q\<bar> / u"
  have u: "0 < u" by (simp add: u_def pow2_pos)
  have "m * u = \<bar>q\<bar>" using u by (simp add: m_def)
  then have q: "q = sgn q * (m * u)" by (simp add: sgn_mult_abs)
  have r: "round64 q = sgn q * (of_int (round_half_even m) * u)"
    using assms by (simp add: round64_def Let_def u_def m_def)
  have "round64 q - q = sgn q * ((of_int (round_half_even m) - m) * u)"
    using q r by (metis left_diff_distrib right_diff_distrib)
  then have "\<bar>round64 q - q\<bar> = \<bar>of_int (round_half_even m) - m\<bar> * u"
    using assms u by (simp add: abs_mult)
  also have "\<dots> \<le> (1 / 2) * u"
    using round_half_even_nearest[of m] u by (intro mult_right_mono) auto
  finally show ?thesis by (simp add: u_def)
qed

lemma round_half_even_below:
  assumes "0 < e" "e < 1 / 2"
  shows "round_half_even (of_int M - e) = M"
proof -
  have f: "\<lfloor>of_int M - e\<rfloor> = M - 1"
    using assms by (intro floor_unique) auto
  have "(of_int M - e) - of_int (M - 1) = 1 - e" by simp
  moreover have "1 / 2 < 1 - e" "\<not> (1 - e < 1 / 2)" using assms by auto
  ultimately show ?thesis
    unfolding round_half_even_def Let_def f by simp
qed

lemma round_half_even_bounds: "\<lfloor>m\<rfloor> \<le> round_half_even m \<and> round_half_even m \<le> \<lceil>m\<rceil>"
proof -
  have "m \<noteq> of_int \<lfloor>m\<rfloor> \<Longrightarrow> \<lceil>m\<rceil> = \<lfloor>m\<rfloor> + 1"
    by (metis ceiling_altdef)
  moreover have "m = of_int \<lfloor>m\<rfloor> \<Longrightarrow> m - of_int \<lfloor>m\<rfloor> < 1 / 2" by simp
  ultimately show ?thesis
    unfolding round_half_even_def Let_def by (auto simp: le_floor_iff)
qed

lemma pow2_nonpos: "s \<le> 0 \<Longrightarrow> pow2 s = 1 / 2 ^ nat (- s)"
  by (cases "s = 0") (auto simp: pow2_def)

lemma ilog2_le_52:
  assumes "0 < q" "q < 2 ^ 53"
  shows "ilog2 q \<le> 52"
proof (cases "1 \<le> q")
  case True
  have "\<lfloor>q\<rfloor> < 2 ^ 53" using assms(2) by (simp add: floor_less_iff)
  then have "bitlen \<lfloor>q\<rfloor> \<le> 53" by (simp add: bitlen_le_iff_power)
  then show ?thesis using True by (simp add: ilog2_def)
next
  case False
  then show ?thesis using bitlen_nonneg[of "\<lceil>1 / q\<rceil> - 1"] by (simp add: ilog2_def)
qed

text \<open>Rounding never crosses an integer: integers below \<open>2 ^ 53\<close> are binary64 values.\<close>

lemma round64_between:
  assumes "0 \<le> q" "q < 2 ^ 53" "of_int a \<le> q" "q \<le> of_int b"
  shows "of_int a \<le> round64 q \<and> round64 q \<le> of_int b"
proof (cases "q = 0")
  case True
  then show ?thesis using assms by (simp add: round64_def)
next
  case False
  then have qpos: "0 < q" using assms(1) by simp
  define j where "j = nat (- (ilog2 q - 52))"
  have p2: "pow2 (ilog2 q - 52) = 1 / 2 ^ j"
    using ilog2_le_52[OF qpos assms(2)] by (simp add: pow2_nonpos j_def)
  define m where "m = q * 2 ^ j"
  have "of_int (a * 2 ^ j) \<le> m" using assms(3) by (simp add: m_def)
  then have "a * 2 ^ j \<le> \<lfloor>m\<rfloor>" by (simp only: le_floor_iff)
  then have lo: "a * 2 ^ j \<le> round_half_even m"
    using round_half_even_bounds[of m] by linarith
  have "m \<le> of_int (b * 2 ^ j)" using assms(4) by (simp add: m_def)
  then have "\<lceil>m\<rceil> \<le> b * 2 ^ j" by (simp only: ceiling_le_iff)
  then have hi: "round_half_even m \<le> b * 2 ^ j"
    using round_half_even_bounds[of m] by linarith
  have absq: "\<bar>q\<bar> = q" "sgn q = 1" using qpos by auto
  have r: "round64 q = of_int (round_half_even m) / 2 ^ j"
    using False unfolding round64_def Let_def absq p2 by (simp add: m_def)
  have "(of_int (a * 2 ^ j) :: rat) \<le> of_int (round_half_even m)"
    using lo by (simp only: of_int_le_iff)
  then have 1: "of_int a \<le> round64 q" unfolding r by (simp add: field_simps)
  have "(of_int (round_half_even m) :: rat) \<le> of_int (b * 2 ^ j)"
    using hi by (simp only: of_int_le_iff)
  then have 2: "round64 q \<le> of_int b" unfolding r by (simp add: field_simps)
  show ?thesis using 1 2 by simp
qed

lemma round64_minus: "round64 (- q) = - round64 q"
  by (simp add: round64_def Let_def)

lemma round64_of_int:
  assumes "\<bar>n\<bar> < 2 ^ 53"
  shows "round64 (of_int n) = of_int n"
proof -
  have pos: "round64 (of_int k) = of_int k" if "0 \<le> k" "k < 2 ^ 53" for k :: int
  proof -
    have "(of_int k :: rat) < 2 ^ 53"
      using that(2) by (metis of_int_less_iff of_int_numeral of_int_power)
    then show ?thesis
      using round64_between[of "of_int k" k k] that(1) by simp
  qed
  show ?thesis
  proof (cases "0 \<le> n")
    case True
    then show ?thesis using pos[of n] assms by simp
  next
    case False
    then have "round64 (of_int (- n)) = of_int (- n)" using pos[of "- n"] assms by simp
    then show ?thesis using round64_minus[of "of_int n"] by simp
  qed
qed

text \<open>
  Dividing an \<open>int32\<close> by the \<open>float64\<close> constant \<open>0.1\<close> yields ten times the number, exactly:
  the exact quotient is \<open>10 p (1 - 1 / (2 ^ 54 + 1))\<close>, less than half a unit in the last
  place below \<open>10 p\<close>.
\<close>

lemma round64_div_tenth_pos:
  assumes "0 < p" "p < 2 ^ 31"
  shows "round64 (of_int p / tenth) = of_int (10 * p)"
proof -
  define N where "N = 10 * p"
  define q :: rat where "q = of_int p / tenth"
  have Npos: "10 \<le> N" and Nlt: "N < 2 ^ 35" using assms by (auto simp: N_def)
  have q_eq: "q = of_int N - of_int N / (2 ^ 54 + 1)"
    by (simp add: q_def N_def tenth_def field_simps)
  have e_bounds: "0 < (of_int N :: rat) / (2 ^ 54 + 1)" "(of_int N :: rat) / (2 ^ 54 + 1) < 1"
    using Npos Nlt by (auto simp: field_simps)
  have fl: "\<lfloor>q\<rfloor> = N - 1"
    unfolding q_eq using e_bounds by (intro floor_unique) auto
  have q_ge: "1 \<le> q" "0 < q" "q \<noteq> 0"
    using e_bounds Npos unfolding q_eq by auto
  define k where "k = bitlen (N - 1) - 1"
  have N1: "0 < N - 1" using Npos by simp
  have kb: "2 ^ nat k \<le> N - 1" "N - 1 < 2 ^ nat (bitlen (N - 1))"
    using bitlen_bounds[OF N1] by (auto simp: k_def)
  have k0: "0 \<le> k" using N1 bitlen_eq_zero_iff[of "N - 1"] bitlen_nonneg[of "N - 1"]
    by (auto simp: k_def)
  have "bitlen (N - 1) \<le> 35"
    using Nlt by (simp add: bitlen_le_iff_power)
  then have k34: "k \<le> 34" by (simp add: k_def)
  have il: "ilog2 q = k"
    using q_ge by (simp add: ilog2_def fl k_def)
  define j where "j = nat (52 - k)"
  have p2: "pow2 (k - 52) = 1 / 2 ^ j"
    using k34 by (simp add: pow2_def j_def)
  define M where "M = N * 2 ^ j"
  have "nat (bitlen (N - 1)) = nat k + 1" using k0 by (simp add: k_def)
  then have "N \<le> 2 * 2 ^ nat k" using kb(2) by simp
  then have "M \<le> 2 * 2 ^ nat k * 2 ^ j" unfolding M_def by (intro mult_right_mono) auto
  also have "\<dots> = 2 ^ (nat k + j + 1)" by (simp add: power_add)
  also have "nat k + j + 1 = 53" using k0 k34 by (simp add: j_def)
  finally have M53: "M \<le> 2 ^ 53" .
  have Mpos: "0 < M" using Npos by (simp add: M_def)
  have scaled: "q / pow2 (k - 52) = of_int M - of_int M / (2 ^ 54 + 1)"
    using q_ge by (simp add: p2 q_eq M_def field_simps)
  have eM: "0 < (of_int M :: rat) / (2 ^ 54 + 1)" "(of_int M :: rat) / (2 ^ 54 + 1) < 1 / 2"
  proof -
    show "0 < (of_int M :: rat) / (2 ^ 54 + 1)" using Mpos by simp
    have "(of_int M :: rat) \<le> 2 ^ 53"
      using M53 by (metis of_int_le_iff of_int_numeral of_int_power)
    then show "(of_int M :: rat) / (2 ^ 54 + 1) < 1 / 2" by (simp add: field_simps)
  qed
  have r: "round_half_even (q / pow2 (k - 52)) = M"
    unfolding scaled by (rule round_half_even_below[OF eM])
  have absq: "\<bar>q\<bar> = q" "sgn q = 1" using q_ge by auto
  have "round64 q = of_int M * pow2 (k - 52)"
    using q_ge(3) il r unfolding round64_def Let_def absq by simp
  also have "\<dots> = of_int N" by (simp add: p2 M_def)
  finally show ?thesis by (simp add: q_def N_def)
qed

lemma round64_div_tenth:
  assumes "\<bar>p\<bar> < 2 ^ 31"
  shows "round64 (of_int p / tenth) = of_int (10 * p)"
proof -
  consider "p = 0" | "0 < p" | "p < 0" by linarith
  then show ?thesis
  proof cases
    case 1
    then show ?thesis by (simp add: round64_def)
  next
    case 2
    then show ?thesis using round64_div_tenth_pos[of p] assms by simp
  next
    case 3
    then have "round64 (of_int (- p) / tenth) = of_int (10 * (- p))"
      using round64_div_tenth_pos[of "- p"] assms by simp
    then show ?thesis using round64_minus[of "of_int p / tenth"] by simp
  qed
qed

lemma sint_int32_of_int:
  "- (2 ^ 31) \<le> t \<Longrightarrow> t < 2 ^ 31 \<Longrightarrow> sint (word_of_int t :: int32) = t"
  by (simp add: sint_sbintrunc' signed_take_bit_int_eq_self)

lemma sint_int32_range: "- (2 ^ 31) \<le> sint (w :: int32) \<and> sint w < 2 ^ 31"
  using sint_ge[of w] sint_lt[of w] by simp

lemma int32_of_float64_in_range:
  "- (2 ^ 31) \<le> trunc_rat q \<Longrightarrow> trunc_rat q < 2 ^ 31 \<Longrightarrow>
   sint (int32_of_float64 oor (Fin q)) = trunc_rat q"
  by (simp add: int32_of_float64_def Let_def sint_int32_of_int)

lemma trunc_rat_of_int: "trunc_rat (of_int n) = n"
  by (simp add: trunc_rat_def)

lemma int32_of_float64_of_int:
  "- (2 ^ 31) \<le> n \<Longrightarrow> n < 2 ^ 31 \<Longrightarrow> sint (int32_of_float64 oor (Fin (of_int n))) = n"
  by (simp add: int32_of_float64_in_range trunc_rat_of_int)

lemma tenth_bounds: "1 / 10 \<le> tenth" "tenth \<le> 1" "0 < tenth"
  by (simp_all add: tenth_def)

lemma clamp_rate_bounds: "tenth \<le> clamp_rate r" "clamp_rate r \<le> 1" "0 < clamp_rate r"
  using tenth_bounds by (auto simp: clamp_rate_def)

subsection \<open>The selection weight\<close>

lemma getPriority_Fin:
  "getPriority oor c (Fin r) =
     int32_of_float64 oor (Fin (round64 (of_int (sint (ch_priority c)) / clamp_rate r)))"
  using tenth_bounds
  by (auto simp: getPriority_def Let_def f64_gt_def f64_tenth_def float64_of_int32_def
      clamp_rate_def)

lemma getPriority_rate_ge_1:
  assumes "1 \<le> r"
  shows "sint (getPriority oor c (Fin r)) = sint (ch_priority c)"
proof -
  define p where "p = sint (ch_priority c)"
  have range: "- (2 ^ 31) \<le> p" "p < 2 ^ 31"
    using sint_int32_range[of "ch_priority c"] by (auto simp: p_def)
  have c1: "clamp_rate r = 1" using assms tenth_bounds by (auto simp: clamp_rate_def)
  have "\<bar>p\<bar> < 2 ^ 53" using range by (simp add: abs_less_iff)
  then have r: "round64 (of_int p) = of_int p" by (rule round64_of_int)
  have "getPriority oor c (Fin r) = int32_of_float64 oor (Fin (round64 (of_int p / clamp_rate r)))"
    unfolding p_def by (rule getPriority_Fin)
  then have "getPriority oor c (Fin r) = int32_of_float64 oor (Fin (of_int p))"
    by (simp add: c1 r)
  then have "sint (getPriority oor c (Fin r)) = p"
    using int32_of_float64_of_int[OF range, of oor] by simp
  then show ?thesis by (simp add: p_def)
qed

lemma getPriority_missing:
  assumes "rates (ch_id c) = None"
    and "- (2 ^ 31) \<le> 10 * sint (ch_priority c)" "10 * sint (ch_priority c) < 2 ^ 31"
  shows "sint (getPriority oor c (rate_of rates (ch_id c))) = 10 * sint (ch_priority c)"
proof -
  define p where "p = sint (ch_priority c)"
  have range: "- (2 ^ 31) \<le> 10 * p" "10 * p < 2 ^ 31" using assms(2,3) by (auto simp: p_def)
  have c1: "clamp_rate 0 = tenth" using tenth_bounds by (auto simp: clamp_rate_def)
  have "\<bar>p\<bar> < 2 ^ 31" using range by (simp add: abs_less_iff)
  then have r: "round64 (of_int p / tenth) = of_int (10 * p)"
    by (rule round64_div_tenth)
  have "getPriority oor c (Fin 0) = int32_of_float64 oor (Fin (round64 (of_int p / clamp_rate 0)))"
    unfolding p_def by (rule getPriority_Fin)
  then have "getPriority oor c (Fin 0) = int32_of_float64 oor (Fin (of_int (10 * p)))"
    by (simp only: c1 r)
  then have "sint (getPriority oor c (Fin 0)) = 10 * p"
    using int32_of_float64_of_int[OF range, of oor] by simp
  then show ?thesis using assms(1) by (simp add: p_def rate_of_def)
qed

lemma getPriority_floor:
  assumes "0 \<le> sint (ch_priority c)" "10 * sint (ch_priority c) < 2 ^ 31"
  shows "sint (getPriority oor c (Fin r)) =
           \<lfloor>round64 (of_int (sint (ch_priority c)) / clamp_rate r)\<rfloor>"
    and "\<lfloor>of_int (sint (ch_priority c)) / clamp_rate r\<rfloor> \<le> sint (getPriority oor c (Fin r))"
    and "sint (getPriority oor c (Fin r)) \<le> \<lfloor>of_int (sint (ch_priority c)) / clamp_rate r\<rfloor> + 1"
proof -
  define p where "p = sint (ch_priority c)"
  define q :: rat where "q = of_int p / clamp_rate r"
  have p0: "0 \<le> p" and p10: "10 * p < 2 ^ 31" using assms by (auto simp: p_def)
  have q0: "0 \<le> q" using p0 clamp_rate_bounds[of r] by (simp add: q_def)
  have "q \<le> of_int p / tenth"
    unfolding q_def using p0 clamp_rate_bounds[of r] tenth_bounds
    by (intro divide_left_mono) auto
  also have "\<dots> \<le> of_int p / (1 / 10)"
    using p0 tenth_bounds by (intro divide_left_mono) auto
  finally have q10: "q \<le> of_int (10 * p)" by simp
  have "(of_int (10 * p) :: rat) < of_int (2 ^ 31)" using p10 by (simp only: of_int_less_iff)
  then have q53: "q < 2 ^ 53" using q10 by simp
  have fl: "of_int \<lfloor>q\<rfloor> \<le> q" "q \<le> of_int (\<lfloor>q\<rfloor> + 1)" by linarith+
  have b1: "of_int \<lfloor>q\<rfloor> \<le> round64 q" "round64 q \<le> of_int (\<lfloor>q\<rfloor> + 1)"
    using round64_between[OF q0 q53 fl] by auto
  have b2: "round64 q \<le> of_int (10 * p)"
    using round64_between[OF q0 q53 fl(1) q10] by auto
  have fq0: "0 \<le> \<lfloor>q\<rfloor>" using q0 by simp
  then have r0: "0 \<le> round64 q" using b1(1) by (smt (verit) of_int_0_le_iff order_trans)
  have t: "trunc_rat (round64 q) = \<lfloor>round64 q\<rfloor>" using r0 by (simp add: trunc_rat_def)
  have lo: "\<lfloor>q\<rfloor> \<le> \<lfloor>round64 q\<rfloor>" using b1(1) by (simp add: le_floor_iff)
  have hi: "\<lfloor>round64 q\<rfloor> \<le> \<lfloor>q\<rfloor> + 1" using floor_mono[OF b1(2)] by (simp only: floor_of_int)
  have hi10: "\<lfloor>round64 q\<rfloor> \<le> 10 * p" using floor_mono[OF b2] by (simp only: floor_of_int)
  have range: "- (2 ^ 31) \<le> trunc_rat (round64 q)" "trunc_rat (round64 q) < 2 ^ 31"
    using lo fq0 hi10 p10 unfolding t by linarith+
  have "getPriority oor c (Fin r) = int32_of_float64 oor (Fin (round64 q))"
    unfolding q_def p_def by (rule getPriority_Fin)
  then have eq: "sint (getPriority oor c (Fin r)) = \<lfloor>round64 q\<rfloor>"
    using int32_of_float64_in_range[OF range, of oor] t by simp
  show "sint (getPriority oor c (Fin r)) =
           \<lfloor>round64 (of_int (sint (ch_priority c)) / clamp_rate r)\<rfloor>"
    using eq by (simp add: q_def p_def)
  show "\<lfloor>of_int (sint (ch_priority c)) / clamp_rate r\<rfloor> \<le> sint (getPriority oor c (Fin r))"
    using eq lo by (simp add: q_def p_def)
  show "sint (getPriority oor c (Fin r)) \<le> \<lfloor>of_int (sint (ch_priority c)) / clamp_rate r\<rfloor> + 1"
    using eq hi by (simp add: q_def p_def)
qed

lemma round64_floor_bounds:
  assumes "\<bar>q\<bar> < 2 ^ 53"
  shows "of_int \<lfloor>q\<rfloor> \<le> round64 q \<and> round64 q \<le> of_int (\<lfloor>q\<rfloor> + 1)"
proof (cases "0 \<le> q")
  case True
  have "q < 2 ^ 53" using assms by simp
  moreover have "of_int \<lfloor>q\<rfloor> \<le> q" "q \<le> of_int (\<lfloor>q\<rfloor> + 1)" by linarith+
  ultimately show ?thesis using round64_between[OF True] by blast
next
  case False
  then have n0: "0 \<le> - q" by simp
  have n53: "- q < 2 ^ 53" using assms by simp
  have lo: "of_int (- (\<lfloor>q\<rfloor> + 1)) \<le> - q" by simp linarith
  have hi: "- q \<le> of_int (- \<lfloor>q\<rfloor>)" by simp
  from round64_between[OF n0 n53 lo hi]
  have "of_int (- (\<lfloor>q\<rfloor> + 1)) \<le> - round64 q" "- round64 q \<le> of_int (- \<lfloor>q\<rfloor>)"
    by (simp_all only: round64_minus)
  then show ?thesis by simp
qed

lemma trunc_rat_between:
  assumes "of_int a \<le> x" "x \<le> of_int b"
  shows "a \<le> trunc_rat x \<and> trunc_rat x \<le> b"
proof -
  have "a \<le> \<lfloor>x\<rfloor>" using assms(1) by (simp only: le_floor_iff)
  moreover have "\<lceil>x\<rceil> \<le> b" using assms(2) by (simp only: ceiling_le_iff)
  moreover have "\<lfloor>x\<rfloor> \<le> \<lceil>x\<rceil>" by (rule floor_le_ceiling)
  ultimately show ?thesis unfolding trunc_rat_def by (auto; linarith)
qed

lemma quotient_magnitude:
  "\<bar>(of_int (sint (w :: int32)) :: rat) / clamp_rate r\<bar> < 2 ^ 53"
proof -
  define p where "p = sint w"
  have p: "\<bar>p\<bar> \<le> 2 ^ 31" using sint_int32_range[of w] by (simp add: p_def abs_le_iff)
  have c: "1 / 10 \<le> clamp_rate r" using clamp_rate_bounds(1)[of r] tenth_bounds(1) by simp
  have "\<bar>(of_int p :: rat) / clamp_rate r\<bar> = \<bar>of_int p\<bar> / clamp_rate r"
    using clamp_rate_bounds(3)[of r] by simp
  also have "\<dots> \<le> \<bar>of_int p\<bar> / (1 / 10)"
    using c by (intro divide_left_mono) auto
  also have "\<dots> = of_int (10 * \<bar>p\<bar>)" by simp
  also have "\<dots> \<le> of_int (10 * 2 ^ 31)" using p by (simp only: of_int_le_iff)
  also have "\<dots> < 2 ^ 53" by simp
  finally show ?thesis by (simp add: p_def)
qed

text \<open>
  Whatever the priority and the rate, the integer part of the binary64 quotient is the
  floor of the exact quotient or one more.
\<close>

lemma trunc_quotient_bounds:
  fixes c :: channel and r :: rat
  defines "q \<equiv> of_int (sint (ch_priority c)) / clamp_rate r"
  shows "\<lfloor>q\<rfloor> \<le> trunc_rat (round64 q) \<and> trunc_rat (round64 q) \<le> \<lfloor>q\<rfloor> + 1"
proof -
  have m: "\<bar>q\<bar> < 2 ^ 53" unfolding q_def by (rule quotient_magnitude)
  from round64_floor_bounds[OF m]
  have b: "of_int \<lfloor>q\<rfloor> \<le> round64 q" "round64 q \<le> of_int (\<lfloor>q\<rfloor> + 1)" by auto
  from trunc_rat_between[OF b] show ?thesis .
qed

lemma getPriority_trunc:
  fixes c :: channel and r :: rat
  defines "q \<equiv> of_int (sint (ch_priority c)) / clamp_rate r"
  assumes r: "- (2 ^ 31) \<le> trunc_rat (round64 q)" "trunc_rat (round64 q) < 2 ^ 31"
  shows "sint (getPriority oor c (Fin r)) = trunc_rat (round64 q)"
proof -
  have "getPriority oor c (Fin r) = int32_of_float64 oor (Fin (round64 q))"
    unfolding q_def by (rule getPriority_Fin)
  then show ?thesis
    using int32_of_float64_in_range[OF r, of oor] by simp
qed

text \<open>
  Claim C3, as stated: the weight of a channel with priority \<open>p\<close> and error rate \<open>e\<close> is
  \<open>\<lfloor>p / clamp(e, 0.1, 1.0)\<rfloor>\<close>. The weight is computed in \<open>float64\<close>: for priority 1 and
  the rate \<open>0.2\<close> (as a \<open>float64\<close>, slightly above one fifth) the exact quotient is below 5
  and its floor is 4, but the \<open>float64\<close> division rounds to 5 and the weight is 5.
\<close>

theorem getPriority_rounding_counterexample:
  "sint (getPriority oor_indefinite
          \<lparr>ch_id = 1, ch_status = ChannelStatusEnabled, ch_priority = 1\<rparr>
          (Fin (3602879701896397 / 18014398509481984))) = 5 \<and>
   \<lfloor>(1 :: rat) / clamp_rate (3602879701896397 / 18014398509481984)\<rfloor> = 4 \<and>
   sint (getPriority oor_indefinite
          \<lparr>ch_id = 1, ch_status = ChannelStatusEnabled, ch_priority = 1\<rparr>
          (Fin (3602879701896397 / 18014398509481984))) \<noteq>
   \<lfloor>(1 :: rat) / clamp_rate (3602879701896397 / 18014398509481984)\<rfloor>"
  by code_simp

text \<open>
  Claim C3, amended. A rate of at least 1 gives exactly the priority, for every priority.
  A channel without an entry in the error-rate map gets exactly ten times its priority
  whenever that product is an \<open>int32\<close> value. For every priority \<open>p\<close> and finite rate \<open>r\<close>
  whose binary64 quotient \<open>p / clamp(r, 0.1, 1.0)\<close> has its integer part in the \<open>int32\<close>
  range, the weight is that integer part, and it is \<open>\<lfloor>p / clamp(r, 0.1, 1.0)\<rfloor>\<close> or one
  more.
\<close>

theorem getPriority_weight:
  "(1 \<le> r \<longrightarrow> sint (getPriority oor c (Fin r)) = sint (ch_priority c)) \<and>
   (rates (ch_id c) = None \<and> - (2 ^ 31) \<le> 10 * sint (ch_priority c) \<and>
      10 * sint (ch_priority c) < 2 ^ 31 \<longrightarrow>
      sint (getPriority oor c (rate_of rates (ch_id c))) = 10 * sint (ch_priority c)) \<and>
   (- (2 ^ 31) \<le> trunc_rat (round64 (of_int (sint (ch_priority c)) / clamp_rate r)) \<and>
      trunc_rat (round64 (of_int (sint (ch_priority c)) / clamp_rate r)) < 2 ^ 31 \<longrightarrow>
      sint (getPriority oor c (Fin r)) =
        trunc_rat (round64 (of_int (sint (ch_priority c)) / clamp_rate r)) \<and>
      \<lfloor>of_int (sint (ch_priority c)) / clamp_rate r\<rfloor> \<le> sint (getPriority oor c (Fin r)) \<and>
      sint (getPriority oor c (Fin r)) \<le> \<lfloor>of_int (sint (ch_priority c)) / clamp_rate r\<rfloor> + 1)"
  using getPriority_rate_ge_1[where r = r and oor = oor and c = c]
    getPriority_missing[where rates = rates and oor = oor and c = c]
    getPriority_trunc[where r = r and oor = oor and c = c]
    trunc_quotient_bounds[where r = r and c = c]
  by simp

theorem getPriority_weight_witness:
  "sint (getPriority oor_indefinite ch1 (Fin 1)) = 10 \<and>
   sint (getPriority oor_indefinite ch1 (rate_of Map.empty (ch_id ch1))) = 100 \<and>
   sint (getPriority oor_indefinite ch1 (Fin (3 / 10))) = 33 \<and>
   \<lfloor>(10 :: rat) / clamp_rate (3 / 10)\<rfloor> = 33 \<and>
   sint (getPriority oor_indefinite heavy (Fin (1 / 2))) = 600000000 \<and>
   \<lfloor>(300000000 :: rat) / clamp_rate (1 / 2)\<rfloor> = 600000000"
proof -
  have a: "trunc_rat (round64 (of_int (sint (ch_priority ch1)) / clamp_rate (3 / 10))) = 33"
    by code_simp
  have b: "trunc_rat (round64 (of_int (sint (ch_priority heavy)) / clamp_rate (1 / 2))) = 600000000"
    by code_simp
  have f: "\<lfloor>(10 :: rat) / clamp_rate (3 / 10)\<rfloor> = 33"
    "\<lfloor>(300000000 :: rat) / clamp_rate (1 / 2)\<rfloor> = 600000000" by code_simp+
  have p: "sint (ch_priority ch1) = 10" "ch_id ch1 = 1" by (simp_all add: ch1_def)
  from getPriority_weight[where r = 1 and oor = oor_indefinite and c = ch1 and rates = Map.empty]
  have 1: "sint (getPriority oor_indefinite ch1 (Fin 1)) = 10"
    "sint (getPriority oor_indefinite ch1 (rate_of Map.empty (ch_id ch1))) = 100"
    by (simp_all add: p)
  from getPriority_weight[where r = "3 / 10" and oor = oor_indefinite and c = ch1
      and rates = Map.empty] a
  have 2: "sint (getPriority oor_indefinite ch1 (Fin (3 / 10))) = 33" by simp
  from getPriority_weight[where r = "1 / 2" and oor = oor_indefinite and c = heavy
      and rates = Map.empty] b
  have 3: "sint (getPriority oor_indefinite heavy (Fin (1 / 2))) = 600000000" by simp
  show ?thesis using 1 2 3 f by simp
qed

subsection \<open>The channel selector\<close>

lemma filterChannels_eq: "filterChannels cs ig = filter (selectable ig) cs"
  by (induction cs) (auto simp: selectable_def)

lemma walk_weights_mem: "walk_weights r (zip cs ws) = Some c \<Longrightarrow> c \<in> set cs"
proof (induction cs arbitrary: r ws)
  case Nil
  then show ?case by simp
next
  case (Cons a cs)
  then show ?case
    by (cases ws) (auto simp: Let_def split: if_splits)
qed

lemma rand_pick_cases:
  "cs \<noteq> [] \<Longrightarrow> \<exists>c \<in> set cs. rand_pick d cs = Ok c"
  by (auto simp: rand_pick_def rand_IntN_def)

lemma getRandomChannel_empty: "getRandomChannel oor d32 dn [] rates ig = Err ErrChannelsNotFound"
  by (simp add: getRandomChannel_def)

lemma getRandomChannel_exhausted:
  "cs \<noteq> [] \<Longrightarrow> filter (selectable ig) cs = [] \<Longrightarrow>
   getRandomChannel oor d32 dn cs rates ig = Err ErrChannelsExhausted"
  by (simp add: getRandomChannel_def filterChannels_eq)

text \<open>
  With at least one enabled channel outside the ignore list, the selector returns one of
  those channels, unless the \<open>int32\<close> sum of the weights is negative: then
  \<open>rand.Int32N\<close> panics.
\<close>

lemma getRandomChannel_cases:
  assumes "filter (selectable ig) cs \<noteq> []"
  shows "(\<exists>c \<in> set (filter (selectable ig) cs). getRandomChannel oor d32 dn cs rates ig = Ok c) \<or>
         (getRandomChannel oor d32 dn cs rates ig = Panic PanicInt32N \<and>
          sint (sum_list (weights oor rates (filter (selectable ig) cs))) < 0)"
proof -
  define fs where "fs = filter (selectable ig) cs"
  define tw where "tw = sum_list (weights oor rates fs)"
  have ne: "fs \<noteq> []" "cs \<noteq> []" using assms by (auto simp: fs_def)
  have unfold: "getRandomChannel oor d32 dn cs rates ig =
     (if length fs = 1 then Ok (fs ! 0)
      else if tw = 0 then rand_pick dn fs
      else (case rand_Int32N d32 tw of
              Panic p \<Rightarrow> Panic p
            | Err e \<Rightarrow> Err e
            | Ok r \<Rightarrow> (case walk_weights r (zip fs (weights oor rates fs)) of
                         Some c \<Rightarrow> Ok c
                       | None \<Rightarrow> rand_pick dn fs)))"
    using ne
    unfolding getRandomChannel_def filterChannels_eq fs_def[symmetric] Let_def weights_def tw_def
    by simp
  have pick: "\<exists>c \<in> set fs. rand_pick dn fs = Ok c" by (rule rand_pick_cases[OF ne(1)])
  have first: "fs ! 0 \<in> set fs" using ne(1) by simp
  have neg: "sint tw < 0" if "tw \<noteq> 0" "sint tw \<le> 0"
    using that by (metis order_le_less signed_eq_0_iff)
  have walk: "c \<in> set fs" if "walk_weights r (zip fs (weights oor rates fs)) = Some c" for r c
    using that by (rule walk_weights_mem)
  show ?thesis
    unfolding unfold fs_def[symmetric] tw_def[symmetric]
    using pick first neg walk
    by (auto simp: rand_Int32N_def split: option.splits)
qed

lemma getRandomChannel_Ok:
  assumes "getRandomChannel oor d32 dn cs rates ig = Ok c"
  shows "c \<in> set cs \<and> ch_status c = ChannelStatusEnabled \<and> ch_id c \<notin> set ig"
proof (cases "filter (selectable ig) cs = []")
  case True
  then show ?thesis using assms
    by (cases "cs = []") (simp_all add: getRandomChannel_empty getRandomChannel_exhausted)
next
  case False
  from getRandomChannel_cases[OF False, of oor d32 dn rates] assms
  have "c \<in> set (filter (selectable ig) cs)" by auto
  then show ?thesis by (simp add: selectable_def)
qed

lemma getRandomChannel_Err:
  assumes "getRandomChannel oor d32 dn cs rates ig = Err e"
  shows "(e = ErrChannelsNotFound \<and> cs = []) \<or>
         (e = ErrChannelsExhausted \<and> cs \<noteq> [] \<and> filter (selectable ig) cs = [])"
proof (cases "filter (selectable ig) cs = []")
  case True
  then show ?thesis using assms
    by (cases "cs = []") (simp_all add: getRandomChannel_empty getRandomChannel_exhausted)
next
  case False
  from getRandomChannel_cases[OF False, of oor d32 dn rates] assms
  show ?thesis by auto
qed

lemma getRandomChannel_Panic:
  assumes "getRandomChannel oor d32 dn cs rates ig = Panic p"
  shows "p = PanicInt32N"
proof (cases "filter (selectable ig) cs = []")
  case True
  then show ?thesis using assms
    by (cases "cs = []") (simp_all add: getRandomChannel_empty getRandomChannel_exhausted)
next
  case False
  from getRandomChannel_cases[OF False, of oor d32 dn rates] assms
  show ?thesis by auto
qed

text \<open>
  Claim C1: an empty candidate list gives \<open>ChannelsNotFound\<close>, a non-empty list without an
  enabled, non-ignored channel gives \<open>ChannelsExhausted\<close>, and otherwise the selector
  returns an enabled, non-ignored candidate. The first two parts hold
  (\<open>getRandomChannel_empty\<close>, \<open>getRandomChannel_exhausted\<close>), and a returned channel is always
  an enabled, non-ignored candidate (\<open>getRandomChannel_Ok\<close>). The selector does not always
  return, though: two enabled channels of priority \<open>2 ^ 30\<close> and error rate 1 have weight
  \<open>2 ^ 30\<close> each, their \<open>int32\<close> sum wraps to \<open>- 2 ^ 31\<close>, the guard \<open>totalWeight == 0\<close> does
  not catch it and \<open>rand.Int32N\<close> panics, whatever the random draws.
\<close>

theorem getRandomChannel_negative_total_panics:
  "getRandomChannel oor d32 dn [hot1, hot2] [1 \<mapsto> Fin 1, 2 \<mapsto> Fin 1] [] = Panic PanicInt32N"
  by code_simp

subsection \<open>One attempt\<close>

lemmas status_defs = StatusBadRequest_def StatusUnauthorized_def StatusPaymentRequired_def
  StatusForbidden_def StatusNotFound_def StatusRequestEntityTooLarge_def
  StatusTooManyRequests_def StatusOK_def

lemma shouldRetry_iff: "shouldRetry sc \<longleftrightarrow> sc \<noteq> 400 \<and> sc \<noteq> 413"
  by (simp add: shouldRetry_def status_defs)

lemma channelHasPermission_iff:
  "channelHasPermission sc \<longleftrightarrow> sc \<noteq> 401 \<and> sc \<noteq> 402 \<and> sc \<noteq> 403 \<and> sc \<noteq> 404"
  by (simp add: channelHasPermission_def channelNoPermissionStatusCodesMap_def status_defs)

lemma no_permission_retriable: "\<not> channelHasPermission sc \<Longrightarrow> shouldRetry sc"
  by (auto simp: channelHasPermission_iff shouldRetry_iff)

lemma RelayHelper_success:
  "handler_error env = None \<Longrightarrow>
   RelayHelper m env =
     (\<lparr>hr_error = None\<rparr>, False,
      [HandlerCall (ch_id (meta_channel m)) None,
       MonitorAddRequest (ch_id (meta_channel m)) False False])"
  by (simp add: RelayHelper_def Let_def)

lemma RelayHelper_failure:
  "handler_error env = Some sc \<Longrightarrow>
   RelayHelper m env =
     (\<lparr>hr_error = Some sc\<rparr>, shouldRetry sc,
      if shouldRetry sc
      then [HandlerCall (ch_id (meta_channel m)) (Some sc),
            MonitorAddRequest (ch_id (meta_channel m)) True (\<not> channelHasPermission sc)] @
           (if banExecution env then [NotifyAutoBanned (ch_id (meta_channel m))]
            else if beyondThreshold env then [NotifyBeyondThreshold (ch_id (meta_channel m))]
            else if \<not> channelHasPermission sc then [NotifyNoPermission (ch_id (meta_channel m))]
            else [])
      else [HandlerCall (ch_id (meta_channel m)) (Some sc)])"
  by (simp add: RelayHelper_def Let_def)

text \<open>
  Claim C5. \<open>shouldRetry\<close> is false exactly for 400 and 413, and \<open>channelHasPermission\<close> is
  false exactly for 401, 402, 403 and 404. For an attempt that ends with an error of status
  \<open>sc\<close>: when \<open>sc\<close> is not retriable, \<open>RelayHelper\<close> returns \<open>retry = false\<close> and does not call
  the monitor; when it is retriable, \<open>RelayHelper\<close> returns \<open>retry = true\<close> and calls the
  monitor once, reporting a failure with \<open>noPermission = !hasPermission\<close>.
\<close>

theorem RelayHelper_classification:
  "(shouldRetry sc \<longleftrightarrow> sc \<noteq> 400 \<and> sc \<noteq> 413) \<and>
   (channelHasPermission sc \<longleftrightarrow> sc \<notin> {401, 402, 403, 404}) \<and>
   (handler_error env = Some sc \<and> \<not> shouldRetry sc \<longrightarrow>
      helper_retry (RelayHelper m env) = False \<and>
      filter is_monitor_call (helper_events (RelayHelper m env)) = []) \<and>
   (handler_error env = Some sc \<and> shouldRetry sc \<longrightarrow>
      helper_retry (RelayHelper m env) = True \<and>
      filter is_monitor_call (helper_events (RelayHelper m env)) =
        [MonitorAddRequest (ch_id (meta_channel m)) True (\<not> channelHasPermission sc)])"
  by (auto simp: shouldRetry_iff channelHasPermission_iff RelayHelper_failure
      helper_retry_def helper_events_def)

theorem RelayHelper_classification_witness:
  "\<not> shouldRetry 413 \<and>
   helper_retry (RelayHelper \<lparr>meta_channel = ch1\<rparr> (answer (Some 413) False False)) = False \<and>
   filter is_monitor_call
     (helper_events (RelayHelper \<lparr>meta_channel = ch1\<rparr> (answer (Some 413) False False))) = [] \<and>
   shouldRetry 404 \<and> \<not> channelHasPermission 404 \<and>
   helper_retry (RelayHelper \<lparr>meta_channel = ch1\<rparr> (answer (Some 404) False False)) = True \<and>
   filter is_monitor_call
     (helper_events (RelayHelper \<lparr>meta_channel = ch1\<rparr> (answer (Some 404) False False))) =
     [MonitorAddRequest 1 True True]"
  using RelayHelper_classification
      [where sc = 413 and env = "answer (Some 413) False False" and m = "\<lparr>meta_channel = ch1\<rparr>"]
    RelayHelper_classification
      [where sc = 404 and env = "answer (Some 404) False False" and m = "\<lparr>meta_channel = ch1\<rparr>"]
  by (simp add: answer_def ch1_def)

text \<open>
  Claim C10. \<open>RelayHelper\<close> calls the throttled notifier at most once per attempt. For a
  failed retriable attempt the call is chosen by precedence: the auto-banned notification
  if the monitor executed a ban; otherwise the threshold notification if the error rate is
  beyond the threshold; otherwise the no-permission notification if the status has no
  permission; otherwise none. A successful attempt and a non-retriable failure notify
  nobody.
\<close>

theorem RelayHelper_notifications:
  "length (filter is_notification (helper_events (RelayHelper m env))) \<le> 1 \<and>
   (handler_error env = None \<longrightarrow>
      filter is_notification (helper_events (RelayHelper m env)) = []) \<and>
   (handler_error env = Some sc \<and> \<not> shouldRetry sc \<longrightarrow>
      filter is_notification (helper_events (RelayHelper m env)) = []) \<and>
   (handler_error env = Some sc \<and> shouldRetry sc \<and> banExecution env \<longrightarrow>
      filter is_notification (helper_events (RelayHelper m env)) =
        [NotifyAutoBanned (ch_id (meta_channel m))]) \<and>
   (handler_error env = Some sc \<and> shouldRetry sc \<and> \<not> banExecution env \<and>
      beyondThreshold env \<longrightarrow>
      filter is_notification (helper_events (RelayHelper m env)) =
        [NotifyBeyondThreshold (ch_id (meta_channel m))]) \<and>
   (handler_error env = Some sc \<and> shouldRetry sc \<and> \<not> banExecution env \<and>
      \<not> beyondThreshold env \<and> \<not> channelHasPermission sc \<longrightarrow>
      filter is_notification (helper_events (RelayHelper m env)) =
        [NotifyNoPermission (ch_id (meta_channel m))]) \<and>
   (handler_error env = Some sc \<and> shouldRetry sc \<and> \<not> banExecution env \<and>
      \<not> beyondThreshold env \<and> channelHasPermission sc \<longrightarrow>
      filter is_notification (helper_events (RelayHelper m env)) = [])"
proof (cases "handler_error env")
  case None
  then show ?thesis by (simp add: RelayHelper_success helper_events_def)
next
  case (Some sc')
  then show ?thesis by (simp add: RelayHelper_failure helper_events_def)
qed

theorem RelayHelper_notifications_witness:
  "filter is_notification
     (helper_events (RelayHelper \<lparr>meta_channel = ch1\<rparr> (answer None True True))) = [] \<and>
   filter is_notification
     (helper_events (RelayHelper \<lparr>meta_channel = ch1\<rparr> (answer (Some 400) True True))) = [] \<and>
   filter is_notification
     (helper_events (RelayHelper \<lparr>meta_channel = ch1\<rparr> (answer (Some 403) True True))) =
     [NotifyAutoBanned 1] \<and>
   filter is_notification
     (helper_events (RelayHelper \<lparr>meta_channel = ch1\<rparr> (answer (Some 403) True False))) =
     [NotifyBeyondThreshold 1] \<and>
   filter is_notification
     (helper_events (RelayHelper \<lparr>meta_channel = ch1\<rparr> (answer (Some 403) False False))) =
     [NotifyNoPermission 1] \<and>
   filter is_notification
     (helper_events (RelayHelper \<lparr>meta_channel = ch1\<rparr> (answer (Some 500) False False))) = []"
  using RelayHelper_notifications
      [where m = "\<lparr>meta_channel = ch1\<rparr>" and env = "answer None True True" and sc = 0]
    RelayHelper_notifications
      [where m = "\<lparr>meta_channel = ch1\<rparr>" and env = "answer (Some 400) True True" and sc = 400]
    RelayHelper_notifications
      [where m = "\<lparr>meta_channel = ch1\<rparr>" and env = "answer (Some 403) True True" and sc = 403]
    RelayHelper_notifications
      [where m = "\<lparr>meta_channel = ch1\<rparr>" and env = "answer (Some 403) True False" and sc = 403]
    RelayHelper_notifications
      [where m = "\<lparr>meta_channel = ch1\<rparr>" and env = "answer (Some 403) False False" and sc = 403]
    RelayHelper_notifications
      [where m = "\<lparr>meta_channel = ch1\<rparr>" and env = "answer (Some 500) False False" and sc = 500]
  by (simp add: answer_def ch1_def shouldRetry_iff channelHasPermission_iff)

subsection \<open>The retry loop\<close>

lemma prepend_Finished_iff:
  "prepend evs r = Finished evs' \<longleftrightarrow> (\<exists>e. r = Finished e \<and> evs' = evs @ e)"
  by (cases r) auto

lemma prepend_Crashed_iff:
  "prepend evs r = Crashed p evs' \<longleftrightarrow> (\<exists>e. r = Crashed p e \<and> evs' = evs @ e)"
  by (cases r) auto

lemma prepend_ScriptEnded_iff: "prepend evs r = ScriptEnded \<longleftrightarrow> r = ScriptEnded"
  by (cases r) auto

lemma attempts_append: "attempts (xs @ ys) = attempts xs + attempts ys"
  by (induction xs rule: attempts.induct) auto

lemma consumes_append: "consumes (xs @ ys) = consumes xs @ consumes ys"
  by (induction xs rule: consumes.induct) auto

lemma noperm_ids_append: "noperm_ids (xs @ ys) = noperm_ids xs @ noperm_ids ys"
  by (induction xs rule: noperm_ids.induct) auto

lemma delay_obs: "attempts (delay sc) = 0" "consumes (delay sc) = []" "noperm_ids (delay sc) = []"
  by (simp_all add: delay_def)

lemma recordResult_obs:
  "attempts (recordResult m res i d) = 0" "consumes (recordResult m res i d) = [(i, d)]"
  "noperm_ids (recordResult m res i d) = []"
  by (simp_all add: recordResult_def)

lemma RelayHelper_obs:
  "attempts (helper_events (RelayHelper m env)) = 1"
  "consumes (helper_events (RelayHelper m env)) = []"
  "noperm_ids (helper_events (RelayHelper m env)) =
     (case handler_error env of
        None \<Rightarrow> []
      | Some sc \<Rightarrow> if channelHasPermission sc then [] else [ch_id (meta_channel m)])"
  by (cases "handler_error env";
      simp add: RelayHelper_success RelayHelper_failure helper_events_def)+

lemma RelayHelper_result:
  "RelayHelper m env = (res, retry, evs) \<Longrightarrow>
   res = \<lparr>hr_error = handler_error env\<rparr> \<and>
   retry = (case handler_error env of None \<Rightarrow> False | Some sc \<Rightarrow> shouldRetry sc) \<and>
   evs = helper_events (RelayHelper m env)"
  by (cases "handler_error env")
    (auto simp: RelayHelper_success RelayHelper_failure helper_events_def)

lemma after_loop_obs:
  "after_loop state = Finished evs \<Longrightarrow> attempts evs = 0 \<and> consumes evs = []"
  by (auto simp: after_loop_def split: option.splits)

lemma getRetryChannel_Ok:
  assumes "getRetryChannel oor d32 dn state = Ok (c, state1, evs)"
  shows "(state1 = state \<or> state1 = state\<lparr>exhausted := True\<rparr>) \<and>
         (evs = [] \<or> evs = [Sleep])"
  using assms
  by (auto simp: getRetryChannel_def reuse_last_def delay_def
      split: if_splits option.splits ret.splits)

lemma getRetryChannel_Panic:
  assumes "pending state" "getRetryChannel oor d32 dn state = Panic p"
  shows "p = PanicInt32N"
  using assms getRandomChannel_Panic[of oor d32 dn "migratedChannels state" "errorRates state"
      "ignoreChannelIDs state" p]
  by (auto simp: getRetryChannel_def reuse_last_def pending_def error_status_def
      split: if_splits option.splits ret.splits)

lemma getRetryChannel_no_nil_deref:
  assumes "pending state"
  shows "getRetryChannel oor d32 dn state \<noteq> Panic PanicNilDeref"
  using getRetryChannel_Panic[OF assms, of oor d32 dn PanicNilDeref] by auto

lemma handleRetryResult_cases:
  assumes "result state = Some res"
  shows "handleRetryResult ctxErr retry c state =
     Returns
       (case hr_error res of
          None \<Rightarrow> (True, state)
        | Some sc \<Rightarrow>
            if ctxErr \<or> \<not> retry then (True, state)
            else if exhausted state then (\<not> channelHasPermission sc, state)
            else if \<not> channelHasPermission sc
              then (False, state\<lparr>ignoreChannelIDs := ignoreChannelIDs state @ [ch_id c],
                                 retryTimes := retryTimes state + 1\<rparr>)
              else (False, state\<lparr>lastHasPermissionChannel := Some c\<rparr>))"
  using assms by (auto simp: handleRetryResult_def split: option.splits)


lemma retry_iter_attempt:
  assumes g: "getRetryChannel oor (it_d32 env) (it_dn env) state = Ok (c, state1, evs0)"
    and b: "\<not> it_bodyError env"
  shows "retry_iter oor i state env =
     (let m = \<lparr>meta_channel = c\<rparr>;
          res = \<lparr>hr_error = handler_error (it_attempt env)\<rparr>;
          retry = (case handler_error (it_attempt env) of None \<Rightarrow> False | Some sc \<Rightarrow> shouldRetry sc);
          evs1 = evs0 @ record_pending state1 i False @ helper_events (RelayHelper m (it_attempt env));
          state3 = (clear_pending state1)\<lparr>meta := Some m, result := Some res\<rparr>
      in case handleRetryResult (it_ctxErr env) retry c state3 of
           Panics p \<Rightarrow> Stop (Crashed p evs1)
         | Returns (done, state4) \<Rightarrow>
             if done \<or> int i = retryTimes state4 - 1
             then Stop (prepend (evs1 @ recordResult m res (i + 1) True) (after_loop state4))
             else Continue state4 evs1)"
proof -
  obtain res retry evs2 where r: "RelayHelper \<lparr>meta_channel = c\<rparr> (it_attempt env) = (res, retry, evs2)"
    by (rule prod_cases3)
  note rr = RelayHelper_result[OF r]
  show ?thesis
    unfolding retry_iter_def g using b rr
    by (simp add: prepareRetry_def Let_def r helper_events_def split: may_panic.splits prod.splits)
qed

lemma retry_iter_no_attempt:
  assumes "retry_iter oor i state env = Stop r"
    and "\<forall>c state1 evs0. getRetryChannel oor (it_d32 env) (it_dn env) state = Ok (c, state1, evs0)
           \<longrightarrow> it_bodyError env"
  shows "(\<exists>p. r = Crashed p [] \<and> getRetryChannel oor (it_d32 env) (it_dn env) state = Panic p) \<or>
         (\<exists>state1 evs0. (state1 = state \<or> state1 = state\<lparr>exhausted := True\<rparr>) \<and>
            (evs0 = [] \<or> evs0 = [Sleep]) \<and>
            r = prepend (evs0 @ record_pending state1 i True) (after_loop state1))"
proof (cases "getRetryChannel oor (it_d32 env) (it_dn env) state")
  case (Ok x)
  obtain c state1 evs0 where x: "x = (c, state1, evs0)" by (rule prod_cases3)
  have "it_bodyError env" using assms(2) Ok x by simp
  then have "r = prepend (evs0 @ record_pending state1 i True) (after_loop state1)"
    using assms(1) Ok x by (simp add: retry_iter_def prepareRetry_def)
  then show ?thesis using getRetryChannel_Ok[of oor "it_d32 env" "it_dn env" state c state1 evs0] Ok x
    by blast
next
  case (Err e)
  then have "r = prepend ([] @ record_pending state i True) (after_loop state)"
    using assms(1) by (simp add: retry_iter_def)
  then show ?thesis by blast
next
  case (Panic p)
  then show ?thesis using assms(1) by (simp add: retry_iter_def)
qed


lemma clear_pending_fields [simp]:
  "ignoreChannelIDs (clear_pending state) = ignoreChannelIDs state"
  "retryTimes (clear_pending state) = retryTimes state"
  "exhausted (clear_pending state) = exhausted state"
  "lastHasPermissionChannel (clear_pending state) = lastHasPermissionChannel state"
  by (simp_all add: clear_pending_def)

lemma retry_iter_Continue:
  assumes "retry_iter oor i state env = Continue state' evs"
  shows "\<exists>c state1 evs0 sc state3.
      getRetryChannel oor (it_d32 env) (it_dn env) state = Ok (c, state1, evs0) \<and>
      handler_error (it_attempt env) = Some sc \<and> shouldRetry sc \<and>
      \<not> it_ctxErr env \<and> \<not> it_bodyError env \<and>
      evs = evs0 @ record_pending state1 i False @
              helper_events (RelayHelper \<lparr>meta_channel = c\<rparr> (it_attempt env)) \<and>
      int i \<noteq> retryTimes state' - 1 \<and>
      state3 = (clear_pending state1)\<lparr>meta := Some \<lparr>meta_channel = c\<rparr>,
                                       result := Some \<lparr>hr_error = Some sc\<rparr>\<rparr> \<and>
      ((exhausted state1 \<and> channelHasPermission sc \<and> state' = state3) \<or>
       (\<not> exhausted state1 \<and> \<not> channelHasPermission sc \<and>
          state' = state3\<lparr>ignoreChannelIDs := ignoreChannelIDs state1 @ [ch_id c],
                          retryTimes := retryTimes state1 + 1\<rparr>) \<or>
       (\<not> exhausted state1 \<and> channelHasPermission sc \<and>
          state' = state3\<lparr>lastHasPermissionChannel := Some c\<rparr>))"
proof (cases "getRetryChannel oor (it_d32 env) (it_dn env) state")
  case (Ok x)
  obtain c state1 evs0 where x: "x = (c, state1, evs0)" by (rule prod_cases3)
  have g: "getRetryChannel oor (it_d32 env) (it_dn env) state = Ok (c, state1, evs0)"
    using Ok x by simp
  have b: "\<not> it_bodyError env"
    using assms g by (auto simp: retry_iter_def prepareRetry_def)
  define state3 where "state3 = (clear_pending state1)\<lparr>meta := Some \<lparr>meta_channel = c\<rparr>,
      result := Some \<lparr>hr_error = handler_error (it_attempt env)\<rparr>\<rparr>"
  have r3: "result state3 = Some \<lparr>hr_error = handler_error (it_attempt env)\<rparr>"
    by (simp add: state3_def)
  show ?thesis
  proof (cases "handler_error (it_attempt env)")
    case None
    then show ?thesis
      using assms unfolding retry_iter_attempt[OF g b] Let_def state3_def[symmetric]
        handleRetryResult_cases[OF r3]
      by simp
  next
    case (Some sc)
    then show ?thesis
      using assms g b unfolding retry_iter_attempt[OF g b] Let_def state3_def[symmetric]
        handleRetryResult_cases[OF r3]
      by (auto simp: state3_def split: if_splits)
  qed
next
  case (Err e)
  then show ?thesis using assms by (simp add: retry_iter_def)
next
  case (Panic p)
  then show ?thesis using assms by (simp add: retry_iter_def)
qed

lemma getInitialChannel_Ok:
  assumes "getInitialChannel oor designated ids rates migrated draws draws' = Ok ic"
  shows "ic_ignoreChannelIDs ic = (case designated of Some c \<Rightarrow> [] | None \<Rightarrow> ids) \<and>
         ic_designatedChannel ic = (designated \<noteq> None)"
  using assms
  by (auto simp: getInitialChannel_def split: option.splits prod.splits ret.splits)

lemma initRetryState_Returns:
  "initRetryState n ic m \<lparr>hr_error = Some sc\<rparr> =
     Returns
       ((if channelHasPermission sc
         then (\<lambda>s. s\<lparr>lastHasPermissionChannel := Some (ic_channel ic)\<rparr>)
         else (\<lambda>s. s\<lparr>ignoreChannelIDs := ic_ignoreChannelIDs ic @ [ch_id (ic_channel ic)]\<rparr>))
        \<lparr>retryTimes = n, lastHasPermissionChannel = None,
          ignoreChannelIDs = ic_ignoreChannelIDs ic, errorRates = ic_errorRates ic,
          exhausted = ic_designatedChannel ic, meta = Some m,
          result = Some \<lparr>hr_error = Some sc\<rparr>, migratedChannels = ic_migratedChannels ic\<rparr>)"
  by (simp add: initRetryState_def error_status_def Let_def)

lemma relay_start_attempt:
  assumes gi: "getInitialChannel oor (rq_designated rq) (rq_banned rq) (rq_rates rq)
      (rq_migrated rq) (rq_draws rq) (rq_draws' rq) = Ok ic"
    and ad: "rq_admission rq = None"
  shows "relay_start oor rq =
     (let m = \<lparr>meta_channel = ic_channel ic\<rparr>;
          res = \<lparr>hr_error = handler_error (rq_attempt rq)\<rparr>;
          evs = helper_events (RelayHelper m (rq_attempt rq))
      in case handler_error (rq_attempt rq) of
           None \<Rightarrow> Stop (Finished (evs @ recordResult m res 0 True))
         | Some sc \<Rightarrow>
             if \<not> shouldRetry sc \<or> rq_retryTimes rq = 0 \<or> rq_ctxErr rq
             then Stop (Finished (evs @ [JSONResponse sc] @ recordResult m res 0 True))
             else (case initRetryState (rq_retryTimes rq) ic m res of
                     Panics p \<Rightarrow> Stop (Crashed p evs)
                   | Returns state \<Rightarrow> Continue state evs))"
proof -
  obtain res retry evs2 where r:
    "RelayHelper \<lparr>meta_channel = ic_channel ic\<rparr> (rq_attempt rq) = (res, retry, evs2)"
    by (rule prod_cases3)
  note rr = RelayHelper_result[OF r]
  show ?thesis
    unfolding relay_start_def gi ad using rr
    by (simp add: Let_def r helper_events_def handleRelayResult_def
        split: option.splits may_panic.splits)
qed

lemma relay_start_Continue:
  assumes "relay_start oor rq = Continue state evs"
  shows "\<exists>ic sc.
      getInitialChannel oor (rq_designated rq) (rq_banned rq) (rq_rates rq) (rq_migrated rq)
        (rq_draws rq) (rq_draws' rq) = Ok ic \<and>
      rq_admission rq = None \<and> handler_error (rq_attempt rq) = Some sc \<and> shouldRetry sc \<and>
      rq_retryTimes rq \<noteq> 0 \<and> \<not> rq_ctxErr rq \<and>
      evs = helper_events (RelayHelper \<lparr>meta_channel = ic_channel ic\<rparr> (rq_attempt rq)) \<and>
      meta state = Some \<lparr>meta_channel = ic_channel ic\<rparr> \<and>
      result state = Some \<lparr>hr_error = Some sc\<rparr> \<and>
      retryTimes state = rq_retryTimes rq \<and>
      exhausted state = ic_designatedChannel ic \<and>
      ignoreChannelIDs state =
        ic_ignoreChannelIDs ic @
          (if channelHasPermission sc then [] else [ch_id (ic_channel ic)])"
proof (cases "getInitialChannel oor (rq_designated rq) (rq_banned rq) (rq_rates rq)
    (rq_migrated rq) (rq_draws rq) (rq_draws' rq)")
  case (Ok ic)
  show ?thesis
  proof (cases "rq_admission rq")
    case None
    show ?thesis
    proof (cases "handler_error (rq_attempt rq)")
      case hn: None
      then show ?thesis using assms unfolding relay_start_attempt[OF Ok None] by (simp add: Let_def)
    next
      case (Some sc)
      then show ?thesis
        using assms Ok None unfolding relay_start_attempt[OF Ok None]
        by (auto simp: Let_def initRetryState_Returns split: if_splits)
    qed
  next
    case (Some a)
    then show ?thesis using assms Ok by (simp add: relay_start_def)
  qed
next
  case (Err e)
  then show ?thesis using assms by (simp add: relay_start_def)
next
  case (Panic p)
  then show ?thesis using assms by (simp add: relay_start_def)
qed

lemma reach_pending: "reach oor rq i state evs \<Longrightarrow> pending state"
proof (induction rule: reach.induct)
  case (reach_start state evs)
  then show ?case using relay_start_Continue[of oor rq state evs]
    by (auto simp: pending_def)
next
  case (reach_iter i state evs env state' evs')
  then show ?case using retry_iter_Continue[of oor i state env state' evs']
    by (auto simp: pending_def)
qed

lemma reach_retryTimes: "reach oor rq i state evs \<Longrightarrow> rq_retryTimes rq \<le> retryTimes state"
proof (induction rule: reach.induct)
  case (reach_start state evs)
  then show ?case using relay_start_Continue[of oor rq state evs] by auto
next
  case (reach_iter i state evs env state' evs')
  from retry_iter_Continue[OF reach_iter.hyps(2)]
  obtain c state1 evs0 sc state3 where
    g: "getRetryChannel oor (it_d32 env) (it_dn env) state = Ok (c, state1, evs0)" and
    s3: "state3 = (clear_pending state1)\<lparr>meta := Some \<lparr>meta_channel = c\<rparr>,
                                       result := Some \<lparr>hr_error = Some sc\<rparr>\<rparr>" and
    c: "(exhausted state1 \<and> channelHasPermission sc \<and> state' = state3) \<or>
       (\<not> exhausted state1 \<and> \<not> channelHasPermission sc \<and>
          state' = state3\<lparr>ignoreChannelIDs := ignoreChannelIDs state1 @ [ch_id c],
                          retryTimes := retryTimes state1 + 1\<rparr>) \<or>
       (\<not> exhausted state1 \<and> channelHasPermission sc \<and>
          state' = state3\<lparr>lastHasPermissionChannel := Some c\<rparr>)"
    by blast
  have "retryTimes state1 = retryTimes state"
    using getRetryChannel_Ok[OF g] by auto
  then have "retryTimes state \<le> retryTimes state'" using c s3 by auto
  then show ?case using reach_iter.IH by simp
qed

lemma reach_ignore:
  "reach oor rq i state evs \<Longrightarrow>
   set (ignoreChannelIDs state) = set (seed_ids rq) \<union> set (noperm_ids evs)"
proof (induction rule: reach.induct)
  case (reach_start state evs)
  from relay_start_Continue[OF reach_start]
  obtain ic sc where
    gi: "getInitialChannel oor (rq_designated rq) (rq_banned rq) (rq_rates rq) (rq_migrated rq)
        (rq_draws rq) (rq_draws' rq) = Ok ic" and
    h: "handler_error (rq_attempt rq) = Some sc" and
    e: "evs = helper_events (RelayHelper \<lparr>meta_channel = ic_channel ic\<rparr> (rq_attempt rq))" and
    ig: "ignoreChannelIDs state =
        ic_ignoreChannelIDs ic @
          (if channelHasPermission sc then [] else [ch_id (ic_channel ic)])"
    by blast
  have "ic_ignoreChannelIDs ic = seed_ids rq"
    using getInitialChannel_Ok[OF gi] by (simp add: seed_ids_def)
  then show ?case using h e ig by (simp add: RelayHelper_obs)
next
  case (reach_iter i state evs env state' evs')
  from retry_iter_Continue[OF reach_iter.hyps(2)]
  obtain c state1 evs0 sc state3 where
    g: "getRetryChannel oor (it_d32 env) (it_dn env) state = Ok (c, state1, evs0)" and
    h: "handler_error (it_attempt env) = Some sc" and
    e: "evs' = evs0 @ record_pending state1 i False @
              helper_events (RelayHelper \<lparr>meta_channel = c\<rparr> (it_attempt env))" and
    s3: "state3 = (clear_pending state1)\<lparr>meta := Some \<lparr>meta_channel = c\<rparr>,
                                       result := Some \<lparr>hr_error = Some sc\<rparr>\<rparr>" and
    c: "(exhausted state1 \<and> channelHasPermission sc \<and> state' = state3) \<or>
       (\<not> exhausted state1 \<and> \<not> channelHasPermission sc \<and>
          state' = state3\<lparr>ignoreChannelIDs := ignoreChannelIDs state1 @ [ch_id c],
                          retryTimes := retryTimes state1 + 1\<rparr>) \<or>
       (\<not> exhausted state1 \<and> channelHasPermission sc \<and>
          state' = state3\<lparr>lastHasPermissionChannel := Some c\<rparr>)"
    by blast
  have g1: "ignoreChannelIDs state1 = ignoreChannelIDs state" "noperm_ids evs0 = []"
    using getRetryChannel_Ok[OF g] by auto
  have rp: "noperm_ids (record_pending state1 i False) = []"
    by (simp add: record_pending_def recordResult_obs split: option.splits)
  have np: "noperm_ids evs' = (if channelHasPermission sc then [] else [ch_id c])"
    using h by (simp add: e noperm_ids_append g1 rp RelayHelper_obs)
  have "set (ignoreChannelIDs state') =
          set (ignoreChannelIDs state) \<union> set (noperm_ids evs')"
    using c s3 g1 np by auto
  then show ?case using reach_iter.IH by (auto simp: noperm_ids_append)
qed

lemma record_pending_obs:
  assumes "pending state"
  shows "attempts (record_pending state i d) = 0" "consumes (record_pending state i d) = [(i, d)]"
  using assms by (auto simp: pending_def record_pending_def recordResult_obs)

lemma pending_exhausted [simp]: "pending (state\<lparr>exhausted := b\<rparr>) = pending state"
  by (simp add: pending_def)

lemma after_loop_pending:
  assumes "result state = Some res"
  shows "after_loop state =
     Finished (case hr_error res of None \<Rightarrow> [] | Some sc \<Rightarrow> [JSONResponse sc])"
  using assms by (simp add: after_loop_def split: option.splits)

lemma getRetryChannel_Ok_pending:
  assumes "getRetryChannel oor d32 dn state = Ok (c, state1, evs0)" "pending state"
  shows "pending state1" "attempts evs0 = 0" "consumes evs0 = []"
  using getRetryChannel_Ok[OF assms(1)] assms(2) by auto

lemma handleRetryResult_keeps:
  assumes "result state = Some res" "handleRetryResult ctxErr retry c state = Returns (done, state')"
  shows "result state' = Some res \<and> meta state' = meta state"
  using assms(2) assms(1) unfolding handleRetryResult_cases[OF assms(1)]
  by (auto split: option.splits if_splits)

lemma retry_iter_Stop:
  assumes p: "pending state" and s: "retry_iter oor i state env = Stop r"
  shows "r = Crashed PanicInt32N [] \<or>
         (\<exists>evs. r = Finished evs \<and>
            ((attempts evs = 0 \<and> consumes evs = [(i, True)]) \<or>
             (attempts evs = 1 \<and> consumes evs = [(i, False), (Suc i, True)])))"
proof (cases "\<forall>c state1 evs0. getRetryChannel oor (it_d32 env) (it_dn env) state = Ok (c, state1, evs0)
           \<longrightarrow> it_bodyError env")
  case True
  from retry_iter_no_attempt[OF s True]
  consider (crash) q where "r = Crashed q []"
      "getRetryChannel oor (it_d32 env) (it_dn env) state = Panic q"
    | (bail) state1 evs0 where "state1 = state \<or> state1 = state\<lparr>exhausted := True\<rparr>"
      "evs0 = [] \<or> evs0 = [Sleep]"
      "r = prepend (evs0 @ record_pending state1 i True) (after_loop state1)"
    by blast
  then show ?thesis
  proof cases
    case crash
    then show ?thesis using getRetryChannel_Panic[OF p crash(2)] by simp
  next
    case bail
    have p1: "pending state1" using bail(1) p by auto
    then obtain res where res: "result state1 = Some res" by (auto simp: pending_def)
    have "attempts evs0 = 0" "consumes evs0 = []" using bail(2) by auto
    then show ?thesis
      using bail(3) record_pending_obs[OF p1, of i True]
      by (auto simp: after_loop_pending[OF res] attempts_append consumes_append
          split: option.splits)
  qed
next
  case False
  then obtain c state1 evs0 where
    g: "getRetryChannel oor (it_d32 env) (it_dn env) state = Ok (c, state1, evs0)" and
    b: "\<not> it_bodyError env" by blast
  note p1 = getRetryChannel_Ok_pending[OF g p]
  define m where "m = \<lparr>meta_channel = c\<rparr>"
  define res where "res = \<lparr>hr_error = handler_error (it_attempt env)\<rparr>"
  define state3 where "state3 = (clear_pending state1)\<lparr>meta := Some m, result := Some res\<rparr>"
  define retry where "retry =
    (case handler_error (it_attempt env) of None \<Rightarrow> False | Some sc \<Rightarrow> shouldRetry sc)"
  define evs1 where "evs1 = evs0 @ record_pending state1 i False @
    helper_events (RelayHelper m (it_attempt env))"
  have r3: "result state3 = Some res" by (simp add: state3_def)
  have "\<exists>x. handleRetryResult (it_ctxErr env) retry c state3 = Returns x"
    unfolding handleRetryResult_cases[OF r3] by simp
  then obtain fin state4 where
    h: "handleRetryResult (it_ctxErr env) retry c state3 = Returns (fin, state4)"
    by force
  have r4: "result state4 = Some res" using handleRetryResult_keeps[OF r3 h] by simp
  have e1: "attempts evs1 = 1" "consumes evs1 = [(i, False)]"
    using p1 record_pending_obs[OF p1(1), of i False]
    by (simp_all add: evs1_def attempts_append consumes_append RelayHelper_obs)
  have "r = prepend (evs1 @ recordResult m res (i + 1) True) (after_loop state4)"
    using s unfolding retry_iter_attempt[OF g b] Let_def
      m_def[symmetric] res_def[symmetric] state3_def[symmetric] retry_def[symmetric]
      evs1_def[symmetric] h
    by (simp split: if_splits)
  then show ?thesis
    using e1
    by (auto simp: after_loop_pending[OF r4] attempts_append consumes_append recordResult_obs
        split: option.splits)
qed

lemma retry_iter_Continue_obs:
  assumes p: "pending state" and s: "retry_iter oor i state env = Continue state' evs"
  shows "attempts evs = 1 \<and> consumes evs = [(i, False)] \<and> pending state'"
proof -
  from retry_iter_Continue[OF s]
  obtain c state1 evs0 sc state3 where
    g: "getRetryChannel oor (it_d32 env) (it_dn env) state = Ok (c, state1, evs0)" and
    e: "evs = evs0 @ record_pending state1 i False @
              helper_events (RelayHelper \<lparr>meta_channel = c\<rparr> (it_attempt env))" and
    s3: "state3 = (clear_pending state1)\<lparr>meta := Some \<lparr>meta_channel = c\<rparr>,
                                       result := Some \<lparr>hr_error = Some sc\<rparr>\<rparr>" and
    c: "(exhausted state1 \<and> channelHasPermission sc \<and> state' = state3) \<or>
       (\<not> exhausted state1 \<and> \<not> channelHasPermission sc \<and>
          state' = state3\<lparr>ignoreChannelIDs := ignoreChannelIDs state1 @ [ch_id c],
                          retryTimes := retryTimes state1 + 1\<rparr>) \<or>
       (\<not> exhausted state1 \<and> channelHasPermission sc \<and>
          state' = state3\<lparr>lastHasPermissionChannel := Some c\<rparr>)"
    by blast
  note p1 = getRetryChannel_Ok_pending[OF g p]
  have "pending state'" using c s3 by (auto simp: pending_def)
  moreover have "attempts evs = 1" "consumes evs = [(i, False)]"
    using p1 record_pending_obs[OF p1(1), of i False]
    by (simp_all add: e attempts_append consumes_append RelayHelper_obs)
  ultimately show ?thesis by simp
qed

lemma retryLoop_from_records:
  assumes "pending state" "retryLoop_from oor i state envs = Finished evs"
  shows "consumes evs = map (\<lambda>j. (j, False)) [i..<i + attempts evs] @ [(i + attempts evs, True)]"
  using assms
proof (induction envs arbitrary: i state evs)
  case Nil
  then show ?case by simp
next
  case (Cons env envs)
  show ?case
  proof (cases "retry_iter oor i state env")
    case (Stop r)
    then have "r = Finished evs" using Cons.prems(2) by simp
    then show ?thesis using retry_iter_Stop[OF Cons.prems(1) Stop] by auto
  next
    case (Continue state' es)
    note obs = retry_iter_Continue_obs[OF Cons.prems(1) Continue]
    from Cons.prems(2) Continue obtain e where
      e: "retryLoop_from oor (Suc i) state' envs = Finished e" "evs = es @ e"
      by (auto simp: prepend_Finished_iff)
    have ih: "consumes e =
        map (\<lambda>j. (j, False)) [Suc i..<Suc i + attempts e] @ [(Suc i + attempts e, True)]"
      using Cons.IH[OF _ e(1)] obs by simp
    have "[i..<i + attempts evs] = i # [Suc i..<Suc i + attempts e]"
      using obs by (simp add: e(2) attempts_append upt_conv_Cons)
    then show ?thesis
      using obs ih by (simp add: e(2) attempts_append consumes_append)
  qed
qed

text \<open>The only panic that ends a run of the loop is the one of the channel selector.\<close>

lemma retryLoop_from_Crashed:
  assumes "pending state" "retryLoop_from oor i state envs = Crashed p evs"
  shows "p = PanicInt32N"
  using assms
proof (induction envs arbitrary: i state evs)
  case Nil
  then show ?case by simp
next
  case (Cons env envs)
  show ?case
  proof (cases "retry_iter oor i state env")
    case (Stop r)
    then show ?thesis using retry_iter_Stop[OF Cons.prems(1) Stop] Cons.prems(2) by auto
  next
    case (Continue state' es)
    note obs = retry_iter_Continue_obs[OF Cons.prems(1) Continue]
    from Cons.prems(2) Continue obtain e where
      "retryLoop_from oor (Suc i) state' envs = Crashed p e"
      by (auto simp: prepend_Crashed_iff)
    then show ?thesis using Cons.IH[of state' "Suc i" e] obs by simp
  qed
qed

lemma getInitialChannel_Panic:
  assumes "getInitialChannel oor designated ids rates migrated draws draws' = Panic p"
  shows "p = PanicInt32N"
  using assms getRandomChannel_Panic
  by (auto simp: getInitialChannel_def getChannelWithFallback_def GetRandomChannel_def
      split: option.splits prod.splits ret.splits if_splits)

lemma relay_start_Stop:
  assumes "relay_start oor rq = Stop r"
  shows "r = Crashed PanicInt32N [] \<or>
         (\<exists>evs. r = Finished evs \<and>
            ((attempts evs = 0 \<and> consumes evs = []) \<or>
             (attempts evs = 1 \<and> consumes evs = [(0, True)])))"
proof (cases "getInitialChannel oor (rq_designated rq) (rq_banned rq) (rq_rates rq)
    (rq_migrated rq) (rq_draws rq) (rq_draws' rq)")
  case (Ok ic)
  show ?thesis
  proof (cases "rq_admission rq")
    case None
    show ?thesis
      using assms unfolding relay_start_attempt[OF Ok None] Let_def
      by (auto simp: initRetryState_Returns attempts_append consumes_append RelayHelper_obs
          recordResult_obs split: option.splits if_splits)
  next
    case (Some a)
    then show ?thesis using assms Ok by (auto simp: relay_start_def)
  qed
next
  case (Err e)
  then show ?thesis using assms by (auto simp: relay_start_def)
next
  case (Panic p)
  then show ?thesis using assms getInitialChannel_Panic[OF Panic] by (auto simp: relay_start_def)
qed

lemma relay_start_Continue_obs:
  assumes "relay_start oor rq = Continue state evs"
  shows "attempts evs = 1 \<and> consumes evs = [] \<and> pending state"
  using relay_start_Continue[OF assms] by (auto simp: RelayHelper_obs pending_def)

lemma relay_records:
  assumes "relay oor rq envs = Finished evs" "attempts evs = Suc k"
  shows "consumes evs = map (\<lambda>j. (j, False)) [0..<k] @ [(k, True)]"
proof (cases "relay_start oor rq")
  case (Stop r)
  then have "r = Finished evs" using assms(1) by (simp add: relay_def)
  then show ?thesis using relay_start_Stop[OF Stop] assms(2) by auto
next
  case (Continue state es)
  note obs = relay_start_Continue_obs[OF Continue]
  from assms(1) Continue obtain e where
    e: "retryLoop_from oor 0 state envs = Finished e" "evs = es @ e"
    by (auto simp: relay_def retryLoop_def prepend_Finished_iff)
  have k: "attempts e = k" using assms(2) obs by (simp add: e(2) attempts_append)
  show ?thesis
    using retryLoop_from_records[OF _ e(1)] obs k
    by (simp add: e(2) consumes_append)
qed

lemma relay_Crashed:
  assumes "relay oor rq envs = Crashed p evs"
  shows "p = PanicInt32N"
proof (cases "relay_start oor rq")
  case (Stop r)
  then show ?thesis using relay_start_Stop[OF Stop] assms by (auto simp: relay_def)
next
  case (Continue state es)
  note obs = relay_start_Continue_obs[OF Continue]
  from assms Continue obtain e where "retryLoop_from oor 0 state envs = Crashed p e"
    by (auto simp: relay_def retryLoop_def prepend_Crashed_iff)
  then show ?thesis using retryLoop_from_Crashed[of state oor 0 envs p e] obs by simp
qed

lemma relay_no_nil_deref: "relay oor rq envs \<noteq> Crashed PanicNilDeref evs"
  using relay_Crashed[of oor rq envs PanicNilDeref evs] by auto

subsection \<open>Concrete runs\<close>

lemma select_first: "getRandomChannel oor_indefinite 0 0 [ch1, ch2] Map.empty [7] = Ok ch1"
  by code_simp

lemma select_second: "getRandomChannel oor_indefinite 0 0 [ch1, ch2] Map.empty [7, 1] = Ok ch2"
  by code_simp

lemmas run_defs = relay_start_def getInitialChannel_def getChannelWithFallback_def
  GetRandomChannel_def request_def answer_def iteration_def RelayHelper_def
  handleRelayResult_def initRetryState_def error_status_def retry_iter_def
  getRetryChannel_def prepareRetry_def record_pending_def clear_pending_def
  recordResult_def handleRetryResult_def Let_def shouldRetry_iff channelHasPermission_iff
  StatusOK_def

lemma start_A:
  "relay_start oor_indefinite (request [7] 1 (Some 500)) =
     Continue state_A [HandlerCall 1 (Some 500), MonitorAddRequest 1 True False]"
  by (simp add: run_defs select_first state_A_def) (simp add: ch1_def)

lemma start_B:
  "relay_start oor_indefinite (request [7] 1 (Some 403)) =
     Continue state_B0
       [HandlerCall 1 (Some 403), MonitorAddRequest 1 True True, NotifyNoPermission 1]"
  by (simp add: run_defs select_first state_B0_def) (simp add: ch1_def)

lemma iter_B:
  "retry_iter oor_indefinite 0 state_B0 (iteration 0 (Some 403) False) =
     Continue state_B1
       [AsyncConsume 403 1 0 False, HandlerCall 2 (Some 403), MonitorAddRequest 2 True True,
        NotifyNoPermission 2]"
  by (simp add: run_defs select_second state_B0_def state_B1_def) (simp add: ch1_def ch2_def)

lemma reach_B0:
  "reach oor_indefinite (request [7] 1 (Some 403)) 0 state_B0
     [HandlerCall 1 (Some 403), MonitorAddRequest 1 True True, NotifyNoPermission 1]"
  by (rule reach_start[OF start_B])

lemma reach_B1:
  "reach oor_indefinite (request [7] 1 (Some 403)) 1 state_B1
     [HandlerCall 1 (Some 403), MonitorAddRequest 1 True True, NotifyNoPermission 1,
      AsyncConsume 403 1 0 False, HandlerCall 2 (Some 403), MonitorAddRequest 2 True True,
      NotifyNoPermission 2]"
  using reach_iter[OF reach_B0 iter_B] by simp

lemma run_two_attempts:
  "relay oor_indefinite (request [] 2 (Some 500)) [iteration 150 None False] =
     Finished
       [HandlerCall 1 (Some 500), MonitorAddRequest 1 True False, AsyncConsume 500 1 0 False,
        HandlerCall 2 None, MonitorAddRequest 2 False False, AsyncConsume 200 2 1 True]"
  by code_simp

lemma run_cancelled:
  "relay oor_indefinite (request [] 3 (Some 500)) [iteration 150 (Some 500) True] =
     Finished
       [HandlerCall 1 (Some 500), MonitorAddRequest 1 True False, AsyncConsume 500 1 0 False,
        HandlerCall 2 (Some 500), MonitorAddRequest 2 True False, AsyncConsume 500 2 1 True,
        JSONResponse 500]"
  by code_simp

subsection \<open>Properties of the retry coordinator\<close>

text \<open>
  Claim C2. In the retry loop (context not cancelled, attempt marked retriable by
  \<open>RelayHelper\<close>), with the state not exhausted: after an attempt that failed with a
  no-permission status, \<open>handleRetryResult\<close> appends the channel's id to the ignore list
  and increments \<open>retryTimes\<close>, and the loop goes on; after a failure whose status has
  permission, it stores the channel as \<open>lastHasPermissionChannel\<close> and leaves \<open>retryTimes\<close>
  and the ignore list alone. At every head of the retry loop \<open>retryTimes\<close> is at least the
  configured number of retries.
\<close>

theorem handleRetryResult_budget:
  "(\<not> exhausted state \<and> result state = Some res \<and> hr_error res = Some sc \<and>
      \<not> channelHasPermission sc \<longrightarrow>
      handleRetryResult False (shouldRetry sc) c state =
        Returns (False, state\<lparr>ignoreChannelIDs := ignoreChannelIDs state @ [ch_id c],
                               retryTimes := retryTimes state + 1\<rparr>)) \<and>
   (\<not> exhausted state \<and> result state = Some res \<and> hr_error res = Some sc \<and>
      shouldRetry sc \<and> channelHasPermission sc \<longrightarrow>
      handleRetryResult False (shouldRetry sc) c state =
        Returns (False, state\<lparr>lastHasPermissionChannel := Some c\<rparr>)) \<and>
   (reach oor rq i state' evs \<longrightarrow> rq_retryTimes rq \<le> retryTimes state')"
  using reach_retryTimes[of oor rq i state' evs] no_permission_retriable[of sc]
  by (auto simp: handleRetryResult_def)

theorem handleRetryResult_budget_witness:
  "handleRetryResult False (shouldRetry 403) ch2 state_B0 =
     Returns (False, state_B0\<lparr>ignoreChannelIDs := [7, 1, 2], retryTimes := 2\<rparr>) \<and>
   handleRetryResult False (shouldRetry 500) ch2 state_A =
     Returns (False, state_A\<lparr>lastHasPermissionChannel := Some ch2\<rparr>) \<and>
   reach oor_indefinite (request [7] 1 (Some 403)) 1 state_B1
     [HandlerCall 1 (Some 403), MonitorAddRequest 1 True True, NotifyNoPermission 1,
      AsyncConsume 403 1 0 False, HandlerCall 2 (Some 403), MonitorAddRequest 2 True True,
      NotifyNoPermission 2] \<and>
   rq_retryTimes (request [7] 1 (Some 403)) = 1 \<and> retryTimes state_B1 = 2 \<and>
   rq_retryTimes (request [7] 1 (Some 403)) \<le> retryTimes state_B1"
  using handleRetryResult_budget[where state = state_B0 and res = "\<lparr>hr_error = Some 403\<rparr>"
      and sc = 403 and c = ch2 and oor = oor_indefinite and rq = "request [7] 1 (Some 403)"
      and i = 1 and state' = state_B1
      and evs = "[HandlerCall 1 (Some 403), MonitorAddRequest 1 True True, NotifyNoPermission 1,
      AsyncConsume 403 1 0 False, HandlerCall 2 (Some 403), MonitorAddRequest 2 True True,
      NotifyNoPermission 2]"]
    handleRetryResult_budget[where state = state_A and res = "\<lparr>hr_error = Some 500\<rparr>"
      and sc = 500 and c = ch2 and oor = oor_indefinite and rq = "request [7] 1 (Some 403)"
      and i = 1 and state' = state_B1
      and evs = "[HandlerCall 1 (Some 403), MonitorAddRequest 1 True True, NotifyNoPermission 1,
      AsyncConsume 403 1 0 False, HandlerCall 2 (Some 403), MonitorAddRequest 2 True True,
      NotifyNoPermission 2]"]
    reach_B1
  by (simp add: state_B0_def state_A_def state_B1_def request_def shouldRetry_iff
      channelHasPermission_iff ch2_def)

text \<open>
  Claim C4: a request that made \<open>k + 1\<close> attempts has passed exactly the attempt indices
  \<open>0, 1, \<dots>, k\<close> to the consumption recorder, and exactly one record carries
  \<open>downstreamResult = true\<close>. It holds for every request that ends normally
  (\<open>relay_records\<close>). A request can also end with the panic of the channel selector
  (\<open>relay_Crashed\<close>), and then the attempt that is waiting to be recorded is lost: over four
  channels of priority \<open>2 ^ 30\<close> and error rate 1 the first selection sees the weight sum
  wrap to 0 and picks uniformly; after that attempt fails with 403 the channel is ignored,
  the weight sum of the other three is negative and \<open>rand.Int32N\<close> panics in
  \<open>getRetryChannel\<close>, before \<open>recordResult\<close> is reached. One attempt was made and nothing was
  recorded, whatever the outside world would have answered.
\<close>

theorem relay_selector_panic_drops_record:
  "relay oor hot_request (env # envs) =
     Crashed PanicInt32N
       [HandlerCall 1 (Some 403), MonitorAddRequest 1 True True, NotifyNoPermission 1] \<and>
   attempts [HandlerCall 1 (Some 403), MonitorAddRequest 1 True True, NotifyNoPermission 1] = 1 \<and>
   consumes [HandlerCall 1 (Some 403), MonitorAddRequest 1 True True, NotifyNoPermission 1] = []"
  by code_simp

text \<open>
  Claim C6, as stated: an id is in the ignore list if and only if that channel returned a
  no-permission status during the current request. The list starts as the monitor's list
  of banned channels: with channel 7 banned and a first attempt on channel 1 that fails
  with 500, the retry state holds 7 in its ignore list although no channel has returned a
  no-permission status.
\<close>

theorem ignoreIds_banned_counterexample:
  "relay_start oor_indefinite (request [7] 1 (Some 500)) =
     Continue state_A [HandlerCall 1 (Some 500), MonitorAddRequest 1 True False] \<and>
   7 \<in> set (ignoreChannelIDs state_A) \<and>
   7 \<notin> set (noperm_ids [HandlerCall 1 (Some 500), MonitorAddRequest 1 True False])"
  using start_A by (simp add: state_A_def channelHasPermission_iff)

text \<open>
  Claim C6, amended. At every head of the retry loop the ignore list holds exactly the
  ids it was seeded with at request entry (the monitor's banned channels for the model;
  none when the caller designated a channel) and the ids of the channels that returned a
  no-permission status during the current request.
\<close>

theorem ignoreIds_characterisation:
  "reach oor rq i state evs \<Longrightarrow>
   set (ignoreChannelIDs state) = set (seed_ids rq) \<union> set (noperm_ids evs)"
  by (rule reach_ignore)

theorem ignoreIds_characterisation_witness:
  "reach oor_indefinite (request [7] 1 (Some 403)) 1 state_B1
     [HandlerCall 1 (Some 403), MonitorAddRequest 1 True True, NotifyNoPermission 1,
      AsyncConsume 403 1 0 False, HandlerCall 2 (Some 403), MonitorAddRequest 2 True True,
      NotifyNoPermission 2] \<and>
   ignoreChannelIDs state_B1 = [7, 1, 2] \<and>
   seed_ids (request [7] 1 (Some 403)) = [7] \<and>
   noperm_ids
     [HandlerCall 1 (Some 403), MonitorAddRequest 1 True True, NotifyNoPermission 1,
      AsyncConsume 403 1 0 False, HandlerCall 2 (Some 403), MonitorAddRequest 2 True True,
      NotifyNoPermission 2] = [1, 2] \<and>
   set (ignoreChannelIDs state_B1) =
     set (seed_ids (request [7] 1 (Some 403))) \<union>
     set (noperm_ids
       [HandlerCall 1 (Some 403), MonitorAddRequest 1 True True, NotifyNoPermission 1,
        AsyncConsume 403 1 0 False, HandlerCall 2 (Some 403), MonitorAddRequest 2 True True,
        NotifyNoPermission 2])"
  using ignoreIds_characterisation[OF reach_B1] reach_B1
  by (simp add: state_B1_def seed_ids_def request_def channelHasPermission_iff)

lemma handleRetryResult_cancelled: "handleRetryResult True retry c state = Returns (True, state)"
  by (simp add: handleRetryResult_def)

lemma after_loop_not_ended: "after_loop state \<noteq> ScriptEnded"
  by (simp add: after_loop_def split: option.splits)

lemma retry_iter_cancelled_attempt:
  assumes g: "getRetryChannel oor (it_d32 env) (it_dn env) state = Ok (c, state1, evs0)"
    and b: "\<not> it_bodyError env" and x: "it_ctxErr env"
  shows "retry_iter oor i state env =
     Stop (Finished
       (evs0 @ record_pending state1 i False @
        helper_events (RelayHelper \<lparr>meta_channel = c\<rparr> (it_attempt env)) @
        [AsyncConsume (case handler_error (it_attempt env) of None \<Rightarrow> StatusOK | Some sc \<Rightarrow> sc)
           (ch_id c) (Suc i) True] @
        (case handler_error (it_attempt env) of None \<Rightarrow> [] | Some sc \<Rightarrow> [JSONResponse sc])))"
proof -
  define state3 where "state3 = (clear_pending state1)\<lparr>meta := Some \<lparr>meta_channel = c\<rparr>,
      result := Some \<lparr>hr_error = handler_error (it_attempt env)\<rparr>\<rparr>"
  have r3: "result state3 = Some \<lparr>hr_error = handler_error (it_attempt env)\<rparr>"
    by (simp add: state3_def)
  show ?thesis
    unfolding retry_iter_attempt[OF g b] Let_def state3_def[symmetric]
    using x
    by (simp add: handleRetryResult_cancelled after_loop_pending[OF r3] recordResult_def)
qed

lemma retry_iter_cancelled_Stop:
  assumes "it_ctxErr env"
  shows "\<exists>r. retry_iter oor i state env = Stop r \<and> r \<noteq> ScriptEnded"
proof (cases "\<forall>c state1 evs0. getRetryChannel oor (it_d32 env) (it_dn env) state = Ok (c, state1, evs0)
           \<longrightarrow> it_bodyError env")
  case True
  have "\<exists>r. retry_iter oor i state env = Stop r"
  proof (cases "getRetryChannel oor (it_d32 env) (it_dn env) state")
    case (Ok x)
    obtain c state1 evs0 where "x = (c, state1, evs0)" by (rule prod_cases3)
    then show ?thesis using Ok True by (simp add: retry_iter_def prepareRetry_def)
  next
    case (Err e)
    then show ?thesis by (simp add: retry_iter_def)
  next
    case (Panic p)
    then show ?thesis by (simp add: retry_iter_def)
  qed
  then obtain r where r: "retry_iter oor i state env = Stop r" by blast
  from retry_iter_no_attempt[OF r True] after_loop_not_ended
  have "r \<noteq> ScriptEnded" by (auto simp: prepend_ScriptEnded_iff eq_commute[of ScriptEnded])
  then show ?thesis using r by blast
next
  case False
  then obtain c state1 evs0 where
    g: "getRetryChannel oor (it_d32 env) (it_dn env) state = Ok (c, state1, evs0)" and
    b: "\<not> it_bodyError env" by blast
  show ?thesis using retry_iter_cancelled_attempt[OF g b assms] by simp
qed

lemma getRetryChannel_A: "getRetryChannel oor_indefinite 0 0 state_A = Ok (ch1, state_A, [])"
  by (simp add: getRetryChannel_def state_A_def select_first)

text \<open>
  Claim C7, as stated: when the context is cancelled during the retry loop, the loop ends,
  the in-flight result is recorded with \<open>downstreamResult = true\<close>, and the coordinator
  exits without writing a response. After the loop \<open>retryLoop\<close> writes the error of the last
  result whenever there is one: a request whose retry fails with 500 while the context is
  cancelled ends with the record of that attempt followed by the response 500.
\<close>

theorem response_after_cancellation_counterexample:
  "it_ctxErr (iteration 150 (Some 500) True) \<and>
   relay oor_indefinite (request [] 3 (Some 500)) [iteration 150 (Some 500) True] =
     Finished
       [HandlerCall 1 (Some 500), MonitorAddRequest 1 True False, AsyncConsume 500 1 0 False,
        HandlerCall 2 (Some 500), MonitorAddRequest 2 True False, AsyncConsume 500 2 1 True,
        JSONResponse 500]"
  using run_cancelled by (simp add: iteration_def)

text \<open>
  Claim C7, amended. When \<open>handleRetryResult\<close> finds the context cancelled, the loop ends in
  that iteration, whatever the outside world would answer later. If the iteration made an
  attempt, the run ends with: the record of the previous attempt (not surfaced), the
  attempt itself, its record with index \<open>i + 1\<close> and \<open>downstreamResult = true\<close>, and then the
  error of that attempt written as the HTTP response if it has one; only a successful
  attempt ends without a response from the coordinator.
\<close>

theorem retry_iter_cancelled:
  "it_ctxErr env \<longrightarrow>
     (\<exists>r. retry_iter oor i state env = Stop r) \<and>
     retryLoop_from oor i state (env # envs) = retryLoop_from oor i state [env] \<and>
     retryLoop_from oor i state [env] \<noteq> ScriptEnded \<and>
     (getRetryChannel oor (it_d32 env) (it_dn env) state = Ok (c, state1, evs0) \<and>
      \<not> it_bodyError env \<longrightarrow>
        retry_iter oor i state env =
          Stop (Finished
            (evs0 @ record_pending state1 i False @
             helper_events (RelayHelper \<lparr>meta_channel = c\<rparr> (it_attempt env)) @
             [AsyncConsume
                (case handler_error (it_attempt env) of None \<Rightarrow> StatusOK | Some sc \<Rightarrow> sc)
                (ch_id c) (Suc i) True] @
             (case handler_error (it_attempt env) of
                None \<Rightarrow> []
              | Some sc \<Rightarrow> [JSONResponse sc]))))"
proof (intro impI conjI)
  assume x: "it_ctxErr env"
  from retry_iter_cancelled_Stop[OF x, of oor i state]
  obtain r where r: "retry_iter oor i state env = Stop r" "r \<noteq> ScriptEnded" by blast
  show "\<exists>r. retry_iter oor i state env = Stop r" using r by blast
  show "retryLoop_from oor i state (env # envs) = retryLoop_from oor i state [env]"
    using r by simp
  show "retryLoop_from oor i state [env] \<noteq> ScriptEnded" using r by simp
  assume "getRetryChannel oor (it_d32 env) (it_dn env) state = Ok (c, state1, evs0) \<and>
      \<not> it_bodyError env"
  then show "retry_iter oor i state env =
          Stop (Finished
            (evs0 @ record_pending state1 i False @
             helper_events (RelayHelper \<lparr>meta_channel = c\<rparr> (it_attempt env)) @
             [AsyncConsume
                (case handler_error (it_attempt env) of None \<Rightarrow> StatusOK | Some sc \<Rightarrow> sc)
                (ch_id c) (Suc i) True] @
             (case handler_error (it_attempt env) of
                None \<Rightarrow> []
              | Some sc \<Rightarrow> [JSONResponse sc])))"
    using retry_iter_cancelled_attempt[OF _ _ x] by blast
qed

theorem retry_iter_cancelled_witness:
  "it_ctxErr (iteration 0 (Some 500) True) \<and>
   retryLoop_from oor_indefinite 0 state_A
     [iteration 0 (Some 500) True, iteration 0 None False] =
   retryLoop_from oor_indefinite 0 state_A [iteration 0 (Some 500) True] \<and>
   retry_iter oor_indefinite 0 state_A (iteration 0 (Some 500) True) =
     Stop (Finished
       [AsyncConsume 500 1 0 False, HandlerCall 1 (Some 500), MonitorAddRequest 1 True False,
        AsyncConsume 500 1 1 True, JSONResponse 500])"
proof -
  have x: "it_ctxErr (iteration 0 (Some 500) True)" by (simp add: iteration_def)
  have g: "getRetryChannel oor_indefinite (it_d32 (iteration 0 (Some 500) True))
      (it_dn (iteration 0 (Some 500) True)) state_A = Ok (ch1, state_A, [])"
    using getRetryChannel_A by (simp add: iteration_def)
  have b: "\<not> it_bodyError (iteration 0 (Some 500) True)" by (simp add: iteration_def)
  from retry_iter_cancelled[where env = "iteration 0 (Some 500) True" and oor = oor_indefinite
      and i = 0 and state = state_A and envs = "[iteration 0 None False]" and c = ch1
      and ?state1.0 = state_A and ?evs0.0 = "[]"] x g b
  show ?thesis
    by (simp add: iteration_def answer_def RelayHelper_failure helper_events_def
        record_pending_def recordResult_def state_A_def ch1_def shouldRetry_iff
        channelHasPermission_iff StatusOK_def)
qed

text \<open>
  Claim C9. \<open>handleRelayResult\<close> returns \<open>done = true\<close> exactly when the error is nil, retry
  is false, the retry count is 0 or the context is cancelled, so \<open>initRetryState\<close> only
  runs on a result with an error. At every head of the retry loop, where \<open>getRetryChannel\<close>
  runs, the state holds a result with an error; neither \<open>getRetryChannel\<close> nor the rest
  of the iteration dereferences nil, and no request ends with a nil dereference.
\<close>

theorem result_error_never_nil:
  "(fst (handleRelayResult ctxErr bizErr retry n) \<longleftrightarrow>
      bizErr = None \<or> \<not> retry \<or> n = 0 \<or> ctxErr) \<and>
   (relay_start oor rq = Continue state0 evs0 \<longrightarrow>
      (\<exists>sc. handler_error (rq_attempt rq) = Some sc \<and>
            result state0 = Some \<lparr>hr_error = Some sc\<rparr>)) \<and>
   (reach oor rq i state evs \<longrightarrow>
      pending state \<and>
      getRetryChannel oor d32 dn state \<noteq> Panic PanicNilDeref \<and>
      retry_iter oor i state env \<noteq> Stop (Crashed PanicNilDeref evs')) \<and>
   relay oor rq envs \<noteq> Crashed PanicNilDeref evs'"
proof (intro conjI impI)
  show "fst (handleRelayResult ctxErr bizErr retry n) \<longleftrightarrow>
      bizErr = None \<or> \<not> retry \<or> n = 0 \<or> ctxErr"
    by (simp add: handleRelayResult_def split: option.splits)
  show "relay oor rq envs \<noteq> Crashed PanicNilDeref evs'" by (rule relay_no_nil_deref)
next
  assume "relay_start oor rq = Continue state0 evs0"
  from relay_start_Continue[OF this]
  show "\<exists>sc. handler_error (rq_attempt rq) = Some sc \<and>
            result state0 = Some \<lparr>hr_error = Some sc\<rparr>" by blast
next
  assume r: "reach oor rq i state evs"
  show p: "pending state" using r by (rule reach_pending)
  show "getRetryChannel oor d32 dn state \<noteq> Panic PanicNilDeref"
    using p by (rule getRetryChannel_no_nil_deref)
  show "retry_iter oor i state env \<noteq> Stop (Crashed PanicNilDeref evs')"
    using retry_iter_Stop[OF p, of oor i env] by auto
qed

theorem result_error_never_nil_witness:
  "fst (handleRelayResult False None True 3) \<and>
   fst (handleRelayResult False (Some 400) False 3) \<and>
   fst (handleRelayResult False (Some 500) True 0) \<and>
   fst (handleRelayResult True (Some 500) True 3) \<and>
   \<not> fst (handleRelayResult False (Some 500) True 3) \<and>
   relay_start oor_indefinite (request [7] 1 (Some 403)) =
     Continue state_B0
       [HandlerCall 1 (Some 403), MonitorAddRequest 1 True True, NotifyNoPermission 1] \<and>
   result state_B0 = Some \<lparr>hr_error = Some 403\<rparr> \<and>
   reach oor_indefinite (request [7] 1 (Some 403)) 1 state_B1
     [HandlerCall 1 (Some 403), MonitorAddRequest 1 True True, NotifyNoPermission 1,
      AsyncConsume 403 1 0 False, HandlerCall 2 (Some 403), MonitorAddRequest 2 True True,
      NotifyNoPermission 2] \<and>
   pending state_B1 \<and>
   getRetryChannel oor_indefinite 0 0 state_B1 \<noteq> Panic PanicNilDeref"
proof -
  note t = result_error_never_nil[where oor = oor_indefinite and rq = "request [7] 1 (Some 403)"
      and ?state0.0 = state_B0
      and ?evs0.0 = "[HandlerCall 1 (Some 403), MonitorAddRequest 1 True True, NotifyNoPermission 1]"
      and i = 1 and state = state_B1
      and evs = "[HandlerCall 1 (Some 403), MonitorAddRequest 1 True True, NotifyNoPermission 1,
        AsyncConsume 403 1 0 False, HandlerCall 2 (Some 403), MonitorAddRequest 2 True True,
        NotifyNoPermission 2]"
      and ?d32.0 = 0 and dn = 0]
  show ?thesis
    using t[where ctxErr = False and bizErr = None and retry = True and n = 3]
      t[where ctxErr = False and bizErr = "Some 400" and retry = False and n = 3]
      t[where ctxErr = False and bizErr = "Some 500" and retry = True and n = 0]
      t[where ctxErr = True and bizErr = "Some 500" and retry = True and n = 3]
      t[where ctxErr = False and bizErr = "Some 500" and retry = True and n = 3]
      start_B reach_B1
    by (simp add: request_def answer_def state_B0_def)
qed

subsection \<open>Admission\<close>


text \<open>In the range of normal numbers the conversion is the rounding used for the weights.\<close>

lemma float64_nearest_normal:
  assumes "q \<noteq> 0" "- 1022 \<le> ilog2 \<bar>q\<bar>" "\<bar>round64 q\<bar> < 2 ^ 1024"
  shows "float64_nearest q = Fin (round64 q)"
proof -
  define s where "s = ilog2 \<bar>q\<bar> - 52"
  define v where "v = of_int (round_half_even (\<bar>q\<bar> / pow2 s)) * pow2 s"
  have m: "max s (- 1074) = s" using assms(2) by (simp add: s_def)
  have "0 \<le> \<bar>q\<bar> / pow2 s" using pow2_pos[of s] by simp
  then have "0 \<le> \<lfloor>\<bar>q\<bar> / pow2 s\<rfloor>" by simp
  then have "0 \<le> round_half_even (\<bar>q\<bar> / pow2 s)"
    using round_half_even_bounds[of "\<bar>q\<bar> / pow2 s"] by linarith
  then have v0: "0 \<le> v" using pow2_pos[of s] by (simp add: v_def)
  have r: "round64 q = sgn q * v"
    using assms(1) by (simp add: round64_def Let_def s_def v_def)
  have "\<bar>round64 q\<bar> = v" unfolding r using assms(1) v0 by (simp add: abs_mult)
  then have "\<not> 2 ^ 1024 \<le> v" using assms(3) by simp
  then show ?thesis
    using assms(1) unfolding float64_nearest_def Let_def s_def[symmetric] m v_def[symmetric] r
    by simp
qed


lemma nearest_milli: "float64_nearest (1 / 1000) = Fin (1152921504606847 / 1152921504606846976)"
  by code_simp



end
